theory Spec2Isabelle
  imports Main
begin

section \<open>Integer types of the operator\<close>

text \<open>
  Row indices and row counts are \<open>vector_size_t\<close> (a signed 32-bit integer), a constant
  frame offset is \<open>int64_t\<close>, an offset column holds \<open>int32_t\<close> or \<open>int64_t\<close> values.
  They are modelled as \<open>int\<close>; where the source narrows a value or computes in a fixed
  width, the reduction into the two's complement range is written out with
  \<open>int32_t\<close> and \<open>int64_t\<close> (signed overflow wraps, as the compiled code does).
\<close>

type_synonym vector_size_t = int
type_synonym column_index_t = nat

definition int32_t :: "int \<Rightarrow> int" where
  "int32_t x = (x + 2 ^ 31) mod 2 ^ 32 - 2 ^ 31"

definition int64_t :: "int \<Rightarrow> int" where
  "int64_t x = (x + 2 ^ 63) mod 2 ^ 64 - 2 ^ 63"

text \<open>The values a \<open>vector_size_t\<close> can hold.\<close>

definition vector_size_range :: "int \<Rightarrow> bool" where
  "vector_size_range x = (- (2 ^ 31) \<le> x \<and> x < 2 ^ 31)"

text \<open>
  \<open>kConstantChannel\<close> is declared outside Window.cpp as the largest \<open>column_index_t\<close>
  (an unsigned 32-bit integer); no input column has this index.
\<close>

definition kConstantChannel :: column_index_t where
  "kConstantChannel = 2 ^ 32 - 1"

section \<open>Plan node frames and exceptions\<close>

datatype WindowType = kRange | kRows

datatype BoundType =
  kUnboundedPreceding | kPreceding | kCurrentRow | kFollowing | kUnboundedFollowing

datatype TypeKind = INTEGER | BIGINT | OTHER

text \<open>
  The messages of the checks in Window.cpp. \<open>OffsetNotNegative v\<close> is
  "Window frame v offset must not be negative", which prints the offending value.
\<close>

datatype Message =
  KFrameBoundType
  | OffsetNotNull
  | OffsetNotNegative int
  | KPrecedingOnlyRows
  | KFollowingOnlyRows

text \<open>
  \<open>VELOX_USER_CHECK\<close> throws a user error, \<open>VELOX_CHECK\<close> a runtime error and
  \<open>VELOX_NYI\<close> a not-yet-implemented error; \<open>std::optional::value()\<close> on an empty
  optional throws \<open>bad_optional_access\<close>; \<open>NullPointer\<close> stands for the use of a null
  pointer (a null scratch vector or a null \<open>currentPartition_\<close>).
\<close>

datatype VeloxException =
  VeloxUserError Message
  | VeloxRuntimeError Message
  | VeloxNotImplemented Message
  | bad_optional_access
  | NullPointer

text \<open>
  A frame bound expression of the plan node: a constant (its type and its value converted
  to BIGINT, \<open>None\<close> for a null constant) or an input column (its type and the channel
  \<open>exprToChannel\<close> finds for it; \<open>exprToChannel\<close> gives \<open>kConstantChannel\<close> for a constant).
\<close>

datatype TypedExpr =
  ConstantTypedExpr TypeKind "int option"
  | FieldAccessTypedExpr TypeKind column_index_t

fun exprType :: "TypedExpr \<Rightarrow> TypeKind" where
  "exprType (ConstantTypedExpr t v) = t"
| "exprType (FieldAccessTypedExpr t c) = t"

text \<open>\<open>core::WindowNode::Frame\<close>; a null \<open>startValue\<close> or \<open>endValue\<close> is \<open>None\<close>.\<close>

record Frame =
  type :: WindowType
  startType :: BoundType
  startValue :: "TypedExpr option"
  endType :: BoundType
  endValue :: "TypedExpr option"

text \<open>
  \<open>FrameChannelArg\<close>: \<open>index\<close>, the scratch vector \<open>value\<close> (modelled by its type kind,
  \<open>None\<close> for a null pointer) and the optional \<open>constant\<close> (field \<open>constantValue\<close>).
\<close>

record FrameChannelArg =
  index :: column_index_t
  valueKind :: "TypeKind option"
  constantValue :: "int option"

text \<open>\<open>Window::WindowFrame\<close>: the fields \<open>type\<close>, \<open>startType\<close>, \<open>endType\<close>, \<open>start\<close>, \<open>end\<close>,
  in this order.\<close>

record WindowFrame =
  frameType :: WindowType
  frameStartType :: BoundType
  frameEndType :: BoundType
  startArg :: "FrameChannelArg option"
  endArg :: "FrameChannelArg option"

section \<open>Window::createWindowFrame\<close>

definition frameBoundCheck :: "TypedExpr option \<Rightarrow> VeloxException + unit" where
  "frameBoundCheck frame =
     (case frame of
        None \<Rightarrow> Inr ()
      | Some e \<Rightarrow>
          if exprType e = INTEGER \<or> exprType e = BIGINT then Inr ()
          else Inl (VeloxUserError KFrameBoundType))"

definition createFrameChannelArg ::
  "TypedExpr option \<Rightarrow> VeloxException + FrameChannelArg option" where
  "createFrameChannelArg frame =
     (case frame of
        None \<Rightarrow> Inr None
      | Some (ConstantTypedExpr t c) \<Rightarrow>
          (case c of
             None \<Rightarrow> Inl (VeloxRuntimeError OffsetNotNull)
           | Some v \<Rightarrow>
               if v \<ge> 0
               then Inr (Some \<lparr>index = kConstantChannel, valueKind = None, constantValue = Some v\<rparr>)
               else Inl (VeloxUserError (OffsetNotNegative v)))
      | Some (FieldAccessTypedExpr t ch) \<Rightarrow>
          Inr (Some \<lparr>index = ch, valueKind = Some t, constantValue = None\<rparr>))"

definition createWindowFrame :: "Frame \<Rightarrow> VeloxException + WindowFrame" where
  "createWindowFrame frame =
     (case (if type frame = kRows
            then (case frameBoundCheck (startValue frame) of
                    Inl e \<Rightarrow> Inl e
                  | Inr u \<Rightarrow> frameBoundCheck (endValue frame))
            else Inr ()) of
        Inl e \<Rightarrow> Inl e
      | Inr u \<Rightarrow>
          (case createFrameChannelArg (startValue frame) of
             Inl e \<Rightarrow> Inl e
           | Inr s \<Rightarrow>
               (case createFrameChannelArg (endValue frame) of
                  Inl e \<Rightarrow> Inl e
                | Inr en \<Rightarrow>
                    Inr \<lparr>frameType = type frame,
                         frameStartType = startType frame,
                         frameEndType = endType frame,
                         startArg = s,
                         endArg = en\<rparr>)))"

section \<open>Partitions\<close>

text \<open>
  Modelled from the spec: the partition class, which is not part of Window.cpp. A
  partition is what the operator asks of it: its row count, its columns (a null is
  \<open>None\<close>), and
  \<open>computePeerBuffers startRow endRow prevPeerStart prevPeerEnd\<close>, which gives the new
  continuation pair and what it writes to the two raw peer buffers: the peer starts and
  the peer ends of the rows of the slice, one entry per row.
\<close>

record WindowPartition =
  numRows :: vector_size_t
  columns :: "column_index_t \<Rightarrow> int option list"
  computePeerBuffers ::
    "vector_size_t \<Rightarrow> vector_size_t \<Rightarrow> vector_size_t \<Rightarrow> vector_size_t
       \<Rightarrow> (vector_size_t \<times> vector_size_t) \<times> vector_size_t list \<times> vector_size_t list"

text \<open>\<open>extractColumn\<close> into a scratch vector at result offset 0: the rows of the slice.\<close>

definition extractColumn ::
  "WindowPartition \<Rightarrow> column_index_t \<Rightarrow> vector_size_t \<Rightarrow> vector_size_t \<Rightarrow> int option list" where
  "extractColumn p ch partitionOffset n = take (nat n) (drop (nat partitionOffset) (columns p ch))"

section \<open>Calls on the collaborators\<close>

text \<open>
  The calls the operator makes on its collaborators, in the order it makes them:
  \<open>extractColumn\<close> on the current partition (channel, partition offset, row count, result
  offset; the call is the same whether it fills a column of the result, as in
  \<open>getInputColumns\<close>, or the scratch vector of a frame offset, as in
  \<open>updateKRowsFrameBounds\<close>, where the result offset is 0),
  \<open>computePeerBuffers\<close> (start row, end row and the two seeds), \<open>resetPartition\<close> on the
  function of the given ordinal, and \<open>apply\<close> on the function of the given ordinal with
  the peer, frame and validity buffers of the slice and the result offset.
\<close>

datatype Event =
  ExtractColumn column_index_t vector_size_t vector_size_t vector_size_t
  | ComputePeerBuffers vector_size_t vector_size_t vector_size_t vector_size_t
  | ResetPartition nat WindowPartition
  | Apply nat "int list" "int list" "int list" "int list" "bool list" vector_size_t

section \<open>Raw buffers\<close>

text \<open>
  A raw buffer is the list of its slots; the source writes slot \<open>i\<close> for \<open>i < numRows\<close>.
  \<open>fill_n\<close>, \<open>copy_n\<close> and \<open>iota\<close> are the standard algorithms the source calls;
  \<open>iota T\<close> increments its running value in the type \<open>T\<close> of the seed and narrows each
  value to the \<open>vector_size_t\<close> slot it is stored in. A count that is not positive
  writes nothing.
\<close>

definition fill_n :: "int list \<Rightarrow> vector_size_t \<Rightarrow> int \<Rightarrow> int list" where
  "fill_n buf n v = fold (\<lambda>i b. b[i := v]) [0..<nat n] buf"

definition copy_n :: "int list \<Rightarrow> vector_size_t \<Rightarrow> int list \<Rightarrow> int list" where
  "copy_n src n buf = fold (\<lambda>i b. b[i := src ! i]) [0..<nat n] buf"

fun iota_loop :: "(int \<Rightarrow> int) \<Rightarrow> nat list \<Rightarrow> int \<Rightarrow> int list \<Rightarrow> int list" where
  "iota_loop T [] v buf = buf"
| "iota_loop T (i # is) v buf = iota_loop T is (T (v + 1)) (buf[i := int32_t v])"

definition iota :: "(int \<Rightarrow> int) \<Rightarrow> int list \<Rightarrow> vector_size_t \<Rightarrow> int \<Rightarrow> int list" where
  "iota T buf n v = iota_loop T [0..<nat n] v buf"

section \<open>Offset resolution for K PRECEDING and K FOLLOWING\<close>

text \<open>The first loop of \<open>updateKRowsOffsetsColumn\<close>: it only reads.\<close>

fun checkOffsets :: "int option list \<Rightarrow> nat list \<Rightarrow> VeloxException option" where
  "checkOffsets val [] = None"
| "checkOffsets val (i # is) =
     (case val ! i of
        None \<Rightarrow> Some (VeloxUserError OffsetNotNull)
      | Some off \<Rightarrow>
          if off \<ge> 0 then checkOffsets val is
          else Some (VeloxUserError (OffsetNotNegative off)))"

text \<open>The raw slot of a row; the second loop runs only when no row is null.\<close>

definition rawValue :: "int option \<Rightarrow> int" where
  "rawValue x = (case x of None \<Rightarrow> 0 | Some v \<Rightarrow> v)"

text \<open>
  \<open>updateKRowsOffsetsColumn<T>\<close>; \<open>T\<close> is \<open>int32_t\<close> or \<open>int64_t\<close>, the type in which
  \<open>precedingFactor * offsets[i]\<close> is computed. The result is the exception thrown, if
  any, and the buffer as the function leaves it.
\<close>

definition updateKRowsOffsetsColumn ::
  "(int \<Rightarrow> int) \<Rightarrow> bool \<Rightarrow> int option list \<Rightarrow> vector_size_t \<Rightarrow> vector_size_t \<Rightarrow> int list
     \<Rightarrow> VeloxException option \<times> int list" where
  "updateKRowsOffsetsColumn T isKPreceding val startRow n rawFrameBounds =
     (case checkOffsets val [0..<nat n] of
        Some e \<Rightarrow> (Some e, rawFrameBounds)
      | None \<Rightarrow>
          (let precedingFactor = (if isKPreceding then - 1 else 1)
           in (None,
               fold (\<lambda>i b. b[i := int32_t (int32_t (startRow + int i)
                                     + int32_t (T (precedingFactor * rawValue (val ! i))))])
                 [0..<nat n] rawFrameBounds)))"

text \<open>
  \<open>Window::updateKRowsFrameBounds\<close>, with the members it reads (\<open>currentPartition_\<close>,
  \<open>partitionOffset_\<close>) as arguments. The result is the exception thrown, if any, the
  bound buffer as the function leaves it, and the calls it has made on the partition: for
  an offset column, the \<open>extractColumn\<close> call that fills the scratch vector of the frame
  argument with the rows of the slice, made before the offsets are read.
\<close>

definition updateKRowsFrameBounds ::
  "WindowPartition \<Rightarrow> vector_size_t \<Rightarrow> bool \<Rightarrow> FrameChannelArg \<Rightarrow> vector_size_t \<Rightarrow> vector_size_t
     \<Rightarrow> int list \<Rightarrow> VeloxException option \<times> int list \<times> Event list" where
  "updateKRowsFrameBounds currentPartition partitionOffset isKPreceding frameArg startRow n
       rawFrameBounds =
     (if index frameArg = kConstantChannel then
        (case constantValue frameArg of
           None \<Rightarrow> (Some bad_optional_access, rawFrameBounds, [])
         | Some constantOffset \<Rightarrow>
             (let startValue =
                    int64_t (startRow
                      + (if isKPreceding then int64_t (- constantOffset) else constantOffset))
              in (None, iota int64_t rawFrameBounds n startValue, [])))
      else
        (let called = [ExtractColumn (index frameArg) partitionOffset n 0];
             val = extractColumn currentPartition (index frameArg) partitionOffset n
         in case valueKind frameArg of
              None \<Rightarrow> (Some NullPointer, rawFrameBounds, called)
            | Some k \<Rightarrow>
                (case (if k = INTEGER
                       then updateKRowsOffsetsColumn int32_t isKPreceding val startRow n
                              rawFrameBounds
                       else updateKRowsOffsetsColumn int64_t isKPreceding val startRow n
                              rawFrameBounds) of
                   (ex, b) \<Rightarrow> (ex, b, called))))"

section \<open>Window::updateFrameBounds\<close>

text \<open>
  The members it reads are arguments, and the result is the exception thrown, if any,
  the bound buffer as the function leaves it, and the calls made on the partition (those
  of \<open>updateKRowsFrameBounds\<close>; the other branches make none). The \<open>default\<close> branch of
  the switch ("Invalid frame bound type") is reached by no value of the enumeration.
\<close>

definition updateFrameBounds ::
  "WindowPartition \<Rightarrow> vector_size_t \<Rightarrow> WindowFrame \<Rightarrow> bool \<Rightarrow> vector_size_t \<Rightarrow> vector_size_t
     \<Rightarrow> int list \<Rightarrow> int list \<Rightarrow> int list \<Rightarrow> VeloxException option \<times> int list \<times> Event list" where
  "updateFrameBounds currentPartition partitionOffset windowFrame isStartBound startRow n
       rawPeerStarts rawPeerEnds rawFrameBounds =
     (let windowType = frameType windowFrame;
          boundType = (if isStartBound then frameStartType windowFrame
                       else frameEndType windowFrame);
          frameArg = (if isStartBound then startArg windowFrame else endArg windowFrame)
      in case boundType of
           kUnboundedPreceding \<Rightarrow> (None, fill_n rawFrameBounds n 0, [])
         | kUnboundedFollowing \<Rightarrow>
             (None, fill_n rawFrameBounds n (numRows currentPartition - 1), [])
         | kCurrentRow \<Rightarrow>
             if windowType = kRange
             then (None, copy_n (if isStartBound then rawPeerStarts else rawPeerEnds) n
                           rawFrameBounds, [])
             else (None, iota int32_t rawFrameBounds n startRow, [])
         | kPreceding \<Rightarrow>
             if windowType = kRows
             then (case frameArg of
                     None \<Rightarrow> (Some bad_optional_access, rawFrameBounds, [])
                   | Some a \<Rightarrow>
                       updateKRowsFrameBounds currentPartition partitionOffset True a startRow n
                         rawFrameBounds)
             else (Some (VeloxNotImplemented KPrecedingOnlyRows), rawFrameBounds, [])
         | kFollowing \<Rightarrow>
             if windowType = kRows
             then (case frameArg of
                     None \<Rightarrow> (Some bad_optional_access, rawFrameBounds, [])
                   | Some a \<Rightarrow>
                       updateKRowsFrameBounds currentPartition partitionOffset False a startRow n
                         rawFrameBounds)
             else (Some (VeloxNotImplemented KFollowingOnlyRows), rawFrameBounds, []))"

section \<open>computeValidFrames\<close>

text \<open>The selectivity vector is the list of its bits; \<open>setValid(i, false)\<close> clears bit \<open>i\<close>.\<close>

definition validFrameStep ::
  "vector_size_t \<Rightarrow> nat \<Rightarrow> int list \<times> int list \<times> bool list \<Rightarrow> int list \<times> int list \<times> bool list" where
  "validFrameStep lastRow i s =
     (case s of (rawFrameStarts, rawFrameEnds, validFrames) \<Rightarrow>
        (let frameStart = rawFrameStarts ! i;
             frameEnd = rawFrameEnds ! i
         in if frameStart \<le> frameEnd \<and> frameEnd \<ge> 0 \<and> frameStart \<le> lastRow
            then (rawFrameStarts[i := max frameStart 0],
                  rawFrameEnds[i := min frameEnd lastRow],
                  validFrames)
            else (rawFrameStarts, rawFrameEnds, validFrames[i := False])))"

definition computeValidFrames ::
  "vector_size_t \<Rightarrow> vector_size_t \<Rightarrow> int list \<Rightarrow> int list \<Rightarrow> bool list
     \<Rightarrow> int list \<times> int list \<times> bool list" where
  "computeValidFrames lastRow n rawFrameStarts rawFrameEnds validFrames =
     fold (validFrameStep lastRow) [0..<nat n] (rawFrameStarts, rawFrameEnds, validFrames)"

section \<open>The operator\<close>

text \<open>
  The members of \<open>Window\<close> that the output path reads or writes; a member \<open>name_\<close> is
  the field \<open>name'\<close>. A window function is known by its name only; \<open>calls\<close> records
  the calls made so far on the current partition and on the window functions.

  Modelled from the spec: the window build, which is not part of Window.cpp.
  \<open>windowBuild'\<close> is the list of the partitions it has still to hand out:
  \<open>hasNextPartition\<close> holds when the list is not empty, and \<open>nextPartition\<close> hands out
  its head.
\<close>

record Window =
  numInputColumns' :: nat
  windowBuild' :: "WindowPartition list"
  currentPartition' :: "WindowPartition option"
  windowFunctions' :: "string list"
  windowFrames' :: "WindowFrame list"
  numRows' :: vector_size_t
  numProcessedRows' :: vector_size_t
  numRowsPerOutput' :: vector_size_t
  partitionOffset' :: vector_size_t
  peerStartRow' :: vector_size_t
  peerEndRow' :: vector_size_t
  peerStartBuffer' :: "int list"
  peerEndBuffer' :: "int list"
  frameStartBuffers' :: "int list list"
  frameEndBuffers' :: "int list list"
  validFrames' :: "bool list list"
  calls :: "Event list"

text \<open>\<open>Window::callResetPartition\<close>.\<close>

definition callResetPartition :: "Window \<Rightarrow> Window" where
  "callResetPartition st =
     (let st1 = st\<lparr>partitionOffset' := 0, peerStartRow' := 0, peerEndRow' := 0,
                    currentPartition' := None\<rparr>
      in case windowBuild' st1 of
           [] \<Rightarrow> st1
         | p # rest \<Rightarrow>
             st1\<lparr>windowBuild' := rest,
                 currentPartition' := Some p,
                 calls := calls st1
                   @ map (\<lambda>i. ResetPartition i p) [0..<length (windowFunctions' st1)]\<rparr>)"

text \<open>
  The body of the loop over the functions in \<open>computePeerAndFrameBuffers\<close>, for one
  function: the selector is filled with true, the start side of the frame is resolved into
  the frame start buffer and then the end side into the frame end buffer, and the validity
  repair runs when the frame has an offset argument. The result is the exception thrown,
  if any, the frame start buffer, the frame end buffer and the selector of the function
  as the body leaves them (when the end side throws, the start buffer holds the bounds
  already resolved), and the calls made on the partition.
\<close>

definition computeFrameBuffers ::
  "WindowPartition \<Rightarrow> vector_size_t \<Rightarrow> WindowFrame \<Rightarrow> vector_size_t \<Rightarrow> vector_size_t
     \<Rightarrow> int list \<Rightarrow> int list \<Rightarrow> int list \<Rightarrow> int list
     \<Rightarrow> VeloxException option \<times> (int list \<times> int list \<times> bool list) \<times> Event list" where
  "computeFrameBuffers p partitionOffset windowFrame startRow n rawPeerStarts rawPeerEnds
       rawFrameStarts rawFrameEnds =
     (let valid = replicate (nat n) True
      in case updateFrameBounds p partitionOffset windowFrame True startRow n
                rawPeerStarts rawPeerEnds rawFrameStarts of
           (Some e, fs, called1) \<Rightarrow> (Some e, (fs, rawFrameEnds, valid), called1)
         | (None, fs, called1) \<Rightarrow>
             (case updateFrameBounds p partitionOffset windowFrame False startRow n
                     rawPeerStarts rawPeerEnds rawFrameEnds of
                (Some e, fe, called2) \<Rightarrow> (Some e, (fs, fe, valid), called1 @ called2)
              | (None, fe, called2) \<Rightarrow>
                  if startArg windowFrame \<noteq> None \<or> endArg windowFrame \<noteq> None
                  then (None, computeValidFrames (numRows p - 1) n fs fe valid,
                        called1 @ called2)
                  else (None, (fs, fe, valid), called1 @ called2)))"

text \<open>
  The loop over the functions. A function of the operator that throws gives \<open>Inl\<close> of the
  exception and the operator as the throw leaves it, with the buffers written and the
  calls made up to the throw; one that returns gives \<open>Inr\<close> of the operator.
\<close>

fun frameLoop ::
  "WindowPartition \<Rightarrow> vector_size_t \<Rightarrow> vector_size_t \<Rightarrow> nat list \<Rightarrow> Window
     \<Rightarrow> VeloxException \<times> Window + Window" where
  "frameLoop p startRow n [] st = Inr st"
| "frameLoop p startRow n (i # is) st =
     (case computeFrameBuffers p (partitionOffset' st) (windowFrames' st ! i) startRow n
             (peerStartBuffer' st) (peerEndBuffer' st)
             (frameStartBuffers' st ! i) (frameEndBuffers' st ! i) of
        (ex, (fs, fe, valid), called) \<Rightarrow>
          (let st1 = st\<lparr>frameStartBuffers' := (frameStartBuffers' st)[i := fs],
                        frameEndBuffers' := (frameEndBuffers' st)[i := fe],
                        validFrames' := (validFrames' st)[i := valid],
                        calls := calls st @ called\<rparr>
           in case ex of
                Some e \<Rightarrow> Inl (e, st1)
              | None \<Rightarrow> frameLoop p startRow n is st1))"

text \<open>
  \<open>Window::computePeerAndFrameBuffers\<close>. Setting the sizes of the buffers writes no
  slot; the peer buffers receive what \<open>computePeerBuffers\<close> writes for the slice.
\<close>

definition computePeerAndFrameBuffers ::
  "Window \<Rightarrow> vector_size_t \<Rightarrow> vector_size_t \<Rightarrow> VeloxException \<times> Window + Window" where
  "computePeerAndFrameBuffers st startRow endRow =
     (let n = endRow - startRow;
          numFuncs = length (windowFunctions' st)
      in case currentPartition' st of
           None \<Rightarrow> Inl (NullPointer, st)
         | Some p \<Rightarrow>
             (case computePeerBuffers p startRow endRow (peerStartRow' st) (peerEndRow' st) of
                ((ps, pe), peerStarts, peerEnds) \<Rightarrow>
                  frameLoop p startRow n [0..<numFuncs]
                    (st\<lparr>peerStartRow' := ps,
                        peerEndRow' := pe,
                        peerStartBuffer' := copy_n peerStarts n (peerStartBuffer' st),
                        peerEndBuffer' := copy_n peerEnds n (peerEndBuffer' st),
                        calls := calls st
                          @ [ComputePeerBuffers startRow endRow (peerStartRow' st)
                               (peerEndRow' st)]\<rparr>)))"

text \<open>
  \<open>Window::getInputColumns\<close>: one \<open>extractColumn\<close> call per input column, from the
  partition offset, into the result at the result offset.
\<close>

definition getInputColumns ::
  "Window \<Rightarrow> vector_size_t \<Rightarrow> vector_size_t \<Rightarrow> vector_size_t
     \<Rightarrow> VeloxException \<times> Window + Window" where
  "getInputColumns st startRow endRow resultOffset =
     (let n = endRow - startRow
      in case currentPartition' st of
           None \<Rightarrow> if numInputColumns' st = 0 then Inr st else Inl (NullPointer, st)
         | Some p \<Rightarrow>
             Inr (st\<lparr>calls := calls st
                    @ map (\<lambda>i. ExtractColumn i (partitionOffset' st) n resultOffset)
                        [0..<numInputColumns' st]\<rparr>))"

text \<open>
  \<open>Window::callApplyForPartitionRows\<close>; \<open>applyCalls\<close> are its \<open>apply\<close> calls, one per
  function, each with the buffers sized to the rows of the slice.
\<close>

definition applyCalls :: "Window \<Rightarrow> vector_size_t \<Rightarrow> vector_size_t \<Rightarrow> Event list" where
  "applyCalls st n resultOffset =
     map (\<lambda>w. Apply w (take (nat n) (peerStartBuffer' st)) (take (nat n) (peerEndBuffer' st))
                 (take (nat n) (frameStartBuffers' st ! w))
                 (take (nat n) (frameEndBuffers' st ! w))
                 (validFrames' st ! w) resultOffset)
       [0..<length (windowFunctions' st)]"

definition callApplyForPartitionRows ::
  "Window \<Rightarrow> vector_size_t \<Rightarrow> vector_size_t \<Rightarrow> vector_size_t
     \<Rightarrow> VeloxException \<times> Window + Window" where
  "callApplyForPartitionRows st startRow endRow resultOffset =
     (case getInputColumns st startRow endRow resultOffset of
        Inl e \<Rightarrow> Inl e
      | Inr st1 \<Rightarrow>
          (case computePeerAndFrameBuffers st1 startRow endRow of
             Inl e \<Rightarrow> Inl e
           | Inr st2 \<Rightarrow>
               (let n = endRow - startRow
                in Inr (st2\<lparr>calls := calls st2 @ applyCalls st2 n resultOffset,
                           numProcessedRows' := numProcessedRows' st2 + n,
                           partitionOffset' := partitionOffset' st2 + n\<rparr>))))"

text \<open>
  \<open>Window::callApplyLoop\<close>, its loop as a recursion: a further round follows only after
  \<open>callResetPartition\<close> has taken a partition from the window build. The check that a
  partition is current exists in debug builds only and is left out; a null
  \<open>currentPartition_\<close> shows as \<open>NullPointer\<close> where the loop first uses it.
\<close>

function callApplyLoop ::
  "Window \<Rightarrow> vector_size_t \<Rightarrow> vector_size_t \<Rightarrow> VeloxException \<times> Window + Window" where
  "callApplyLoop st numOutputRowsLeft resultIndex =
     (if numOutputRowsLeft > 0 then
        (case currentPartition' st of
           None \<Rightarrow> Inl (NullPointer, st)
         | Some p \<Rightarrow>
             (let rowsForCurrentPartition = numRows p - partitionOffset' st
              in if rowsForCurrentPartition \<le> numOutputRowsLeft then
                   (case callApplyForPartitionRows st (partitionOffset' st)
                           (partitionOffset' st + rowsForCurrentPartition) resultIndex of
                      Inl e \<Rightarrow> Inl e
                    | Inr st1 \<Rightarrow>
                        (let st2 = callResetPartition st1
                         in if currentPartition' st2 = None then Inr st2
                            else callApplyLoop st2
                                   (numOutputRowsLeft - rowsForCurrentPartition)
                                   (resultIndex + rowsForCurrentPartition)))
                 else callApplyForPartitionRows st (partitionOffset' st)
                        (partitionOffset' st + numOutputRowsLeft) resultIndex))
      else Inr st)"
  by pat_completeness auto
termination
proof (relation "measure (\<lambda>(st, l, r). length (windowBuild' st))")
  show "wf (measure (\<lambda>(st, l, r). length (windowBuild' st)))"
    by simp
next
  fix st :: Window and numOutputRowsLeft resultIndex :: int
    and p :: WindowPartition and rowsForCurrentPartition st1 st2
  assume "rowsForCurrentPartition = numRows p - partitionOffset' st"
    and r: "callApplyForPartitionRows st (partitionOffset' st)
              (partitionOffset' st + rowsForCurrentPartition) resultIndex = Inr st1"
    and s: "st2 = callResetPartition st1"
    and c: "currentPartition' st2 \<noteq> None"
  have loop: "frameLoop q startRow n is a = Inr b \<Longrightarrow> windowBuild' b = windowBuild' a"
    for q startRow n "is" a b
  proof (induction "is" arbitrary: a)
    case Nil
    then show ?case by simp
  next
    case (Cons i "is")
    from Cons.prems obtain a1 where "frameLoop q startRow n is a1 = Inr b"
      and "windowBuild' a1 = windowBuild' a"
      by (auto simp: Let_def split: prod.splits option.splits)
    with Cons.IH [of a1] show ?case by simp
  qed
  from r have slice: "windowBuild' st1 = windowBuild' st"
    by (auto simp: callApplyForPartitionRows_def getInputColumns_def
          computePeerAndFrameBuffers_def Let_def
        split: sum.splits option.splits prod.splits if_splits
        dest!: loop)
  from c s have "length (windowBuild' st2) < length (windowBuild' st1)"
    by (simp add: callResetPartition_def Let_def split: list.splits)
  with slice
  show "((st2, numOutputRowsLeft - rowsForCurrentPartition,
          resultIndex + rowsForCurrentPartition),
         st, numOutputRowsLeft, resultIndex)
        \<in> measure (\<lambda>(st, l, r). length (windowBuild' st))"
    by simp
qed

text \<open>
  \<open>Window::getOutput\<close>: the new operator state and the size of the vector returned,
  \<open>None\<close> for the null pointer that signals that there is no output.
\<close>

definition getOutput ::
  "Window \<Rightarrow> VeloxException \<times> Window + Window \<times> vector_size_t option" where
  "getOutput st =
     (if numRows' st = 0 then Inr (st, None)
      else
        (let numRowsLeft = numRows' st - numProcessedRows' st
         in if numRowsLeft = 0 then Inr (st, None)
            else
              (let st1 = (if currentPartition' st = None then callResetPartition st else st)
               in if currentPartition' st1 = None then Inr (st1, None)
                  else
                    (let numOutputRows = min (numRowsPerOutput' st1) numRowsLeft
                     in case callApplyLoop st1 numOutputRows 0 of
                          Inl e \<Rightarrow> Inl e
                        | Inr st2 \<Rightarrow> Inr (st2, Some numOutputRows)))))"

section \<open>Notions used in the properties\<close>

text \<open>The frame of a row before the repair is usable.\<close>

definition frameValid :: "vector_size_t \<Rightarrow> int \<Rightarrow> int \<Rightarrow> bool" where
  "frameValid lastRow s e =
     (s \<le> e \<and> e \<ge> 0 \<and> s \<le> lastRow)"

text \<open>
  A partition of \<open>n\<close> rows whose ORDER BY keys are all distinct: every row is its own
  peer group. It serves as the concrete partition of the examples.
\<close>

definition distinctKeysPartition ::
  "vector_size_t \<Rightarrow> (column_index_t \<Rightarrow> int option list) \<Rightarrow> WindowPartition" where
  "distinctKeysPartition n cols =
     \<lparr>numRows = n, columns = cols,
      computePeerBuffers = (\<lambda>s e ps pe.
        ((e - 1, e - 1), map int [nat s..<nat e], map int [nat s..<nat e]))\<rparr>"

text \<open>A row of the offset column that the validation loop refuses, and the error it raises.\<close>

definition offsetRefused :: "int option \<Rightarrow> bool" where
  "offsetRefused x = (case x of None \<Rightarrow> True | Some v \<Rightarrow> v < 0)"

definition offsetError :: "int option \<Rightarrow> VeloxException" where
  "offsetError x =
     (case x of None \<Rightarrow> VeloxUserError OffsetNotNull
      | Some v \<Rightarrow> VeloxUserError (OffsetNotNegative v))"

text \<open>
  The operator as its constructor and \<open>noMoreInput\<close> leave it: no current partition,
  nothing processed, the partitions of the input in the window build, and the peer,
  frame and validity buffers of \<open>createPeerAndFrameBuffers\<close>, one triple per function,
  each with room for \<open>numRowsPerOutput\<close> rows.
\<close>

definition newWindow ::
  "string list \<Rightarrow> WindowFrame list \<Rightarrow> WindowPartition list \<Rightarrow> vector_size_t \<Rightarrow> Window" where
  "newWindow functions frames partitions numRowsPerOutput =
     \<lparr>numInputColumns' = 1,
      windowBuild' = partitions,
      currentPartition' = None,
      windowFunctions' = functions,
      windowFrames' = frames,
      numRows' = sum_list (map numRows partitions),
      numProcessedRows' = 0,
      numRowsPerOutput' = numRowsPerOutput,
      partitionOffset' = 0,
      peerStartRow' = 0,
      peerEndRow' = 0,
      peerStartBuffer' = replicate (nat numRowsPerOutput) 0,
      peerEndBuffer' = replicate (nat numRowsPerOutput) 0,
      frameStartBuffers' = replicate (length functions) (replicate (nat numRowsPerOutput) 0),
      frameEndBuffers' = replicate (length functions) (replicate (nat numRowsPerOutput) 0),
      validFrames' = replicate (length functions) (replicate (nat numRowsPerOutput) True),
      calls = []\<rparr>"

text \<open>ROWS BETWEEN UNBOUNDED PRECEDING AND CURRENT ROW.\<close>

definition rowsUnboundedPrecedingCurrentRow :: WindowFrame where
  "rowsUnboundedPrecedingCurrentRow =
     \<lparr>frameType = kRows, frameStartType = kUnboundedPreceding, frameEndType = kCurrentRow,
      startArg = None, endArg = None\<rparr>"

text \<open>
  ROWS BETWEEN CURRENT ROW AND \<open>c\<close> FOLLOWING, where \<open>c\<close> is the BIGINT input column of
  channel 0; and a partition of three rows in which that column is 1, null and 2.
\<close>

definition rowsCurrentRowColumnFollowing :: WindowFrame where
  "rowsCurrentRowColumnFollowing =
     \<lparr>frameType = kRows, frameStartType = kCurrentRow, frameEndType = kFollowing,
      startArg = None,
      endArg = Some \<lparr>index = 0, valueKind = Some BIGINT, constantValue = None\<rparr>\<rparr>"

definition partitionWithNullOffset :: WindowPartition where
  "partitionWithNullOffset = distinctKeysPartition 3 (\<lambda>c. [Some 1, None, Some 2])"

text \<open>
  ROWS BETWEEN \<open>c\<close> PRECEDING AND CURRENT ROW, where \<open>c\<close> is the BIGINT input column of
  channel 0; and a partition of three rows in which that column is 1, 0 and 2.
\<close>

definition rowsColumnPrecedingCurrentRow :: WindowFrame where
  "rowsColumnPrecedingCurrentRow =
     \<lparr>frameType = kRows, frameStartType = kPreceding, frameEndType = kCurrentRow,
      startArg = Some \<lparr>index = 0, valueKind = Some BIGINT, constantValue = None\<rparr>,
      endArg = None\<rparr>"

definition partitionWithOffsets :: WindowPartition where
  "partitionWithOffsets = distinctKeysPartition 3 (\<lambda>c. [Some 1, Some 0, Some 2])"

text \<open>RANGE BETWEEN 1 PRECEDING AND CURRENT ROW, as the plan node gives it.\<close>

definition rangeOnePrecedingCurrentRow :: Frame where
  "rangeOnePrecedingCurrentRow =
     \<lparr>type = kRange, startType = kPreceding,
      startValue = Some (ConstantTypedExpr BIGINT (Some 1)),
      endType = kCurrentRow, endValue = None\<rparr>"

text \<open>The bound of a side is K PRECEDING or K FOLLOWING.\<close>

definition isKBound :: "BoundType \<Rightarrow> bool" where
  "isKBound b = (b = kPreceding \<or> b = kFollowing)"

text \<open>The calls \<open>getInputColumns\<close> makes for a slice.\<close>

definition extractCalls :: "Window \<Rightarrow> vector_size_t \<Rightarrow> vector_size_t \<Rightarrow> Event list" where
  "extractCalls st n resultOffset =
     map (\<lambda>i. ExtractColumn i (partitionOffset' st) n resultOffset) [0..<numInputColumns' st]"

text \<open>
  The call that resolving one side of a frame makes for a slice of \<open>n\<close> rows: the
  \<open>extractColumn\<close> of the offset column, when the side is a K bound of a ROWS frame whose
  offset is a column. \<open>frameCalls\<close> are these calls in the order of
  \<open>computePeerAndFrameBuffers\<close>: function by function, the start side before the end
  side.
\<close>

definition offsetCalls ::
  "WindowFrame \<Rightarrow> bool \<Rightarrow> vector_size_t \<Rightarrow> vector_size_t \<Rightarrow> Event list" where
  "offsetCalls windowFrame isStartBound partitionOffset n =
     (if frameType windowFrame = kRows
         \<and> isKBound (if isStartBound then frameStartType windowFrame
                      else frameEndType windowFrame)
      then (case (if isStartBound then startArg windowFrame else endArg windowFrame) of
              None \<Rightarrow> []
            | Some a \<Rightarrow>
                if index a = kConstantChannel then []
                else [ExtractColumn (index a) partitionOffset n 0])
      else [])"

definition frameCalls :: "Window \<Rightarrow> vector_size_t \<Rightarrow> Event list" where
  "frameCalls st n =
     concat (map (\<lambda>w. offsetCalls (windowFrames' st ! w) True (partitionOffset' st) n
                       @ offsetCalls (windowFrames' st ! w) False (partitionOffset' st) n)
               [0..<length (windowFunctions' st)])"

text \<open>The rows that the operator has still to put out.\<close>

definition remainingRows :: "Window \<Rightarrow> int" where
  "remainingRows st =
     (case currentPartition' st of None \<Rightarrow> 0 | Some p \<Rightarrow> numRows p - partitionOffset' st)
     + sum_list (map numRows (windowBuild' st))"

text \<open>
  What holds of the operator between two \<open>getOutput\<close> calls once its input is
  finalized: partitions are not empty, the cursor is inside the current partition, the
  rows not yet processed are the rest of the current partition and the partitions still
  in the window build, and the output budget is positive.
\<close>

definition driverInv :: "Window \<Rightarrow> bool" where
  "driverInv st \<longleftrightarrow>
     (\<forall>p\<in>set (windowBuild' st). 0 < numRows p)
     \<and> (case currentPartition' st of
           None \<Rightarrow> True
         | Some p \<Rightarrow> 0 \<le> partitionOffset' st \<and> partitionOffset' st < numRows p)
     \<and> 0 \<le> numProcessedRows' st
     \<and> remainingRows st = numRows' st - numProcessedRows' st
     \<and> 0 < numRowsPerOutput' st"

text \<open>\<open>k\<close> successive \<open>getOutput\<close> calls, with the sizes of the vectors they return.\<close>

fun getOutputs ::
  "nat \<Rightarrow> Window \<Rightarrow> VeloxException \<times> Window + Window \<times> vector_size_t option list" where
  "getOutputs 0 st = Inr (st, [])"
| "getOutputs (Suc k) st =
     (case getOutput st of
        Inl e \<Rightarrow> Inl e
      | Inr (st1, out) \<Rightarrow>
          (case getOutputs k st1 of
             Inl e \<Rightarrow> Inl e
           | Inr (st2, outs) \<Rightarrow> Inr (st2, out # outs)))"

text \<open>
  What call number \<open>j\<close> (from 0) returns when each call puts out the smaller of the
  budget and the rows not yet processed: before it, \<open>j\<close> budgets are gone.
\<close>

definition expectedOutput :: "int \<Rightarrow> int \<Rightarrow> nat \<Rightarrow> vector_size_t option" where
  "expectedOutput left budget j =
     (if left - int j * budget \<le> 0 then None else Some (min budget (left - int j * budget)))"

text \<open>Frames without a K bound: resolving their bounds throws nothing.\<close>

definition noKBounds :: "WindowFrame \<Rightarrow> bool" where
  "noKBounds f = (\<not> isKBound (frameStartType f) \<and> \<not> isKBound (frameEndType f))"

text \<open>The state in which \<open>getOutput\<close> looks for the current partition.\<close>

definition withPartition :: "Window \<Rightarrow> Window" where
  "withPartition st = (if currentPartition' st = None then callResetPartition st else st)"

text \<open>
  A monitor reads the calls of the operator in order and keeps the partition that the
  latest \<open>resetPartition\<close> calls announced, the number of functions reset for it so far
  and the end row of its latest slice. It refuses
  \<^item> a \<open>resetPartition\<close> on function 0 (a new partition becomes current) while an announced
    partition has a function not yet reset or its cursor is not at its row count;
  \<^item> a \<open>resetPartition\<close> on function \<open>w > 0\<close> unless it is for the announced partition and
    exactly the functions before \<open>w\<close> have been reset for it;
  \<^item> a slice (\<open>computePeerBuffers\<close>) unless every function has been reset for the
    announced partition, the slice starts at the cursor, the cursor is before the row
    count and the slice ends at or before the row count;
  \<^item> an \<open>apply\<close> unless every function has been reset for the announced partition.
\<close>

record PartitionMonitor =
  announced :: "WindowPartition option"
  resets :: nat
  cursor :: vector_size_t

definition noPartitionYet :: PartitionMonitor where
  "noPartitionYet = \<lparr>announced = None, resets = 0, cursor = 0\<rparr>"

text \<open>The announced partition, if any, is finished: all functions reset, cursor at the end.\<close>

definition finished :: "nat \<Rightarrow> PartitionMonitor \<Rightarrow> bool" where
  "finished nf m =
     (case announced m of None \<Rightarrow> True | Some q \<Rightarrow> resets m = nf \<and> cursor m = numRows q)"

fun monitorStep :: "nat \<Rightarrow> Event \<Rightarrow> PartitionMonitor \<Rightarrow> PartitionMonitor option" where
  "monitorStep nf (ResetPartition w p) m =
     (if w = 0
      then (if finished nf m \<and> 0 < nf
            then Some \<lparr>announced = Some p, resets = 1, cursor = 0\<rparr> else None)
      else (if announced m = Some p \<and> resets m = w \<and> w < nf
            then Some (m\<lparr>resets := Suc w\<rparr>) else None))"
| "monitorStep nf (ComputePeerBuffers s e a b) m =
     (case announced m of
        None \<Rightarrow> None
      | Some p \<Rightarrow>
          if resets m = nf \<and> s = cursor m \<and> s < numRows p \<and> e \<le> numRows p
          then Some (m\<lparr>cursor := e\<rparr>) else None)"
| "monitorStep nf (Apply w ps pe fs fe v r) m =
     (if announced m \<noteq> None \<and> resets m = nf \<and> w < nf then Some m else None)"
| "monitorStep nf (ExtractColumn c off n r) m = Some m"

fun monitor :: "nat \<Rightarrow> Event list \<Rightarrow> PartitionMonitor \<Rightarrow> PartitionMonitor option" where
  "monitor nf [] m = Some m"
| "monitor nf (e # es) m =
     (case monitorStep nf e m of None \<Rightarrow> None | Some m' \<Rightarrow> monitor nf es m')"

text \<open>The monitor has accepted the calls made so far and agrees with the operator.\<close>

definition agrees :: "Window \<Rightarrow> PartitionMonitor \<Rightarrow> bool" where
  "agrees st m =
     (case currentPartition' st of
        None \<Rightarrow> finished (length (windowFunctions' st)) m
      | Some p \<Rightarrow> announced m = Some p \<and> resets m = length (windowFunctions' st)
                 \<and> cursor m = partitionOffset' st)"

definition tracked :: "Window \<Rightarrow> bool" where
  "tracked st =
     (case monitor (length (windowFunctions' st)) (calls st) noPartitionYet of
        None \<Rightarrow> False
      | Some m \<Rightarrow> agrees st m)"

text \<open>
  A second monitor follows the peer continuation through the calls: it keeps the
  partition announced by the latest \<open>resetPartition\<close> on function 0, the end row of its
  latest slice and the pair that the latest \<open>computePeerBuffers\<close> call on it returned
  (\<open>(0, 0)\<close> before its first slice). It refuses a \<open>computePeerBuffers\<close> call that does
  not start at the end of the slice before or is not seeded with the pair kept; the
  other calls leave what it keeps as it is.
\<close>

record PeerMonitor =
  partitionSeen :: "WindowPartition option"
  sliceEnd :: vector_size_t
  seedStart :: vector_size_t
  seedEnd :: vector_size_t

definition noSliceYet :: PeerMonitor where
  "noSliceYet = \<lparr>partitionSeen = None, sliceEnd = 0, seedStart = 0, seedEnd = 0\<rparr>"

fun peerStep :: "Event \<Rightarrow> PeerMonitor \<Rightarrow> PeerMonitor option" where
  "peerStep (ResetPartition w p) m =
     (if w = 0 then Some \<lparr>partitionSeen = Some p, sliceEnd = 0, seedStart = 0, seedEnd = 0\<rparr>
      else Some m)"
| "peerStep (ComputePeerBuffers s e a b) m =
     (case partitionSeen m of
        None \<Rightarrow> None
      | Some p \<Rightarrow>
          if s = sliceEnd m \<and> a = seedStart m \<and> b = seedEnd m
          then Some (m\<lparr>sliceEnd := e,
                       seedStart := fst (fst (computePeerBuffers p s e a b)),
                       seedEnd := snd (fst (computePeerBuffers p s e a b))\<rparr>)
          else None)"
| "peerStep (Apply w ps pe fs fe v r) m = Some m"
| "peerStep (ExtractColumn c off n r) m = Some m"

fun peerMonitor :: "Event list \<Rightarrow> PeerMonitor \<Rightarrow> PeerMonitor option" where
  "peerMonitor [] m = Some m"
| "peerMonitor (e # es) m =
     (case peerStep e m of None \<Rightarrow> None | Some m' \<Rightarrow> peerMonitor es m')"

text \<open>
  The second monitor has accepted the calls made so far, and what it keeps is the
  continuation state of the operator.
\<close>

definition peerAgrees :: "Window \<Rightarrow> PeerMonitor \<Rightarrow> bool" where
  "peerAgrees st m =
     (case currentPartition' st of
        None \<Rightarrow> True
      | Some p \<Rightarrow> partitionSeen m = Some p \<and> sliceEnd m = partitionOffset' st
                 \<and> seedStart m = peerStartRow' st \<and> seedEnd m = peerEndRow' st)"

definition seeded :: "Window \<Rightarrow> bool" where
  "seeded st =
     (case peerMonitor (calls st) noSliceYet of
        None \<Rightarrow> False
      | Some m \<Rightarrow> peerAgrees st m)"

section \<open>Properties of the integer types and of the buffer algorithms\<close>

lemma int32_t_id: "vector_size_range x \<Longrightarrow> int32_t x = x"
  by (simp add: int32_t_def vector_size_range_def)

lemma int32_t_range: "vector_size_range (int32_t x)"
  by (simp add: int32_t_def vector_size_range_def)

lemma int32_t_add_left: "int32_t (int32_t a + b) = int32_t (a + b)"
proof -
  have "(int32_t a + b + 2 ^ 31) mod 2 ^ 32 = (a + b + 2 ^ 31) mod (2 ^ 32 :: int)"
    unfolding int32_t_def by (simp add: mod_simps algebra_simps)
  then show ?thesis by (simp add: int32_t_def[of "int32_t a + b"] int32_t_def[of "a + b"])
qed

lemma int32_t_add_right: "int32_t (a + int32_t b) = int32_t (a + b)"
  using int32_t_add_left [of b a] by (simp add: add.commute)

lemma int64_t_decomp: "int64_t a = a - 2 ^ 64 * ((a + 2 ^ 63) div 2 ^ 64)"
  unfolding int64_t_def by (simp add: minus_mult_div_eq_mod [symmetric] algebra_simps)

lemma int32_t_int64_t_add: "int32_t (int64_t a + b) = int32_t (a + b)"
proof -
  define q where "q = (a + 2 ^ 63) div (2 ^ 64 :: int)"
  have "int64_t a + b + 2 ^ 31 = (a + b + 2 ^ 31) + 2 ^ 32 * (- (2 ^ 32) * q)"
    by (simp add: int64_t_decomp q_def algebra_simps)
  then have "(int64_t a + b + 2 ^ 31) mod 2 ^ 32 = (a + b + 2 ^ 31) mod (2 ^ 32 :: int)"
    by (metis mod_mult_self2)
  then show ?thesis by (simp add: int32_t_def[of "int64_t a + b"] int32_t_def[of "a + b"])
qed

lemma int32_t_int64_t: "int32_t (int64_t a) = int32_t a"
  using int32_t_int64_t_add [of a 0] by simp

lemma int32_t_idem: "int32_t (int32_t a) = int32_t a"
  using int32_t_add_left [of a 0] by simp

lemma length_fold_write: "length (fold (\<lambda>i b. b[i := f i]) is buf) = length buf"
  by (induction "is" arbitrary: buf) simp_all

lemma fold_write_nth:
  "i < length buf \<Longrightarrow>
     fold (\<lambda>j b. b[j := f j]) [0..<n] buf ! i = (if i < n then f i else buf ! i)"
proof (induction n)
  case 0
  then show ?case by simp
next
  case (Suc n)
  then show ?case
    by (cases "i = n") (auto simp: length_fold_write nth_list_update less_Suc_eq)
qed

lemma length_iota_loop: "length (iota_loop T is v buf) = length buf"
  by (induction "is" arbitrary: v buf) simp_all

lemma iota_loop_nth:
  assumes T: "\<And>a b. int32_t (T a + b) = int32_t (a + b)"
  shows "i < length buf \<Longrightarrow>
     iota_loop T [k..<n] v buf ! i
       = (if k \<le> i \<and> i < n then int32_t (v + int (i - k)) else buf ! i)"
proof (induction "n - k" arbitrary: k v buf)
  case 0
  then show ?case by simp
next
  case (Suc d)
  then have kn: "k < n" and d: "d = n - Suc k" by simp_all
  have "iota_loop T [k..<n] v buf = iota_loop T [Suc k..<n] (T (v + 1)) (buf[k := int32_t v])"
    using kn by (simp add: upt_rec [of k n])
  moreover have "iota_loop T [Suc k..<n] (T (v + 1)) (buf[k := int32_t v]) ! i
      = (if Suc k \<le> i \<and> i < n then int32_t (T (v + 1) + int (i - Suc k))
         else (buf[k := int32_t v]) ! i)"
    using Suc.hyps(1) [OF d, of "buf[k := int32_t v]" "T (v + 1)"] Suc.prems by simp
  ultimately have step: "iota_loop T [k..<n] v buf ! i
      = (if Suc k \<le> i \<and> i < n then int32_t (T (v + 1) + int (i - Suc k))
         else (buf[k := int32_t v]) ! i)"
    by simp
  show ?case
  proof (cases "Suc k \<le> i \<and> i < n")
    case True
    then have "1 + int (i - Suc k) = int (i - k)" by linarith
    then have "v + 1 + int (i - Suc k) = v + int (i - k)" by simp
    with True show ?thesis by (simp add: step T)
  next
    case False
    show ?thesis
    proof (cases "i = k")
      case True
      with step Suc.prems kn show ?thesis by simp
    next
      case ik: False
      with step False Suc.prems kn show ?thesis by auto
    qed
  qed
qed

lemma fill_n_nth:
  "i < length buf \<Longrightarrow> fill_n buf n v ! i = (if i < nat n then v else buf ! i)"
  by (simp add: fill_n_def fold_write_nth)

lemma copy_n_nth:
  "i < length buf \<Longrightarrow> copy_n src n buf ! i = (if i < nat n then src ! i else buf ! i)"
  by (simp add: copy_n_def fold_write_nth)

lemma iota_nth:
  assumes "\<And>a b. int32_t (T a + b) = int32_t (a + b)" and "i < length buf"
  shows "iota T buf n v ! i = (if i < nat n then int32_t (v + int i) else buf ! i)"
  using iota_loop_nth [of T i buf 0 "nat n" v, OF assms] by (simp add: iota_def)

lemma length_fill_n: "length (fill_n buf n v) = length buf"
  by (simp add: fill_n_def length_fold_write)

lemma length_copy_n: "length (copy_n src n buf) = length buf"
  by (simp add: copy_n_def length_fold_write)

lemma length_iota: "length (iota T buf n v) = length buf"
  by (simp add: iota_def length_iota_loop)

section \<open>Validity repair\<close>

lemma validFrameStep_fold:
  assumes "fold (validFrameStep lastRow) [0..<n] (fs, fe, v) = (fs', fe', v')"
    and "n \<le> length fs" "n \<le> length fe" "n \<le> length v"
  shows "length fs' = length fs \<and> length fe' = length fe \<and> length v' = length v
     \<and> (\<forall>i<length fs. fs' ! i = (if i < n \<and> frameValid lastRow (fs ! i) (fe ! i)
                         then max (fs ! i) 0 else fs ! i))
     \<and> (\<forall>i<length fe. fe' ! i = (if i < n \<and> frameValid lastRow (fs ! i) (fe ! i)
                         then min (fe ! i) lastRow else fe ! i))
     \<and> (\<forall>i<length v. v' ! i = (if i < n \<and> \<not> frameValid lastRow (fs ! i) (fe ! i)
                        then False else v ! i))"
  using assms
proof (induction n arbitrary: fs' fe' v')
  case 0
  then show ?case by simp
next
  case (Suc n)
  obtain fs1 fe1 v1 where f1: "fold (validFrameStep lastRow) [0..<n] (fs, fe, v) = (fs1, fe1, v1)"
    by (cases "fold (validFrameStep lastRow) [0..<n] (fs, fe, v)") auto
  from Suc.prems have le: "n \<le> length fs" "n \<le> length fe" "n \<le> length v"
    and lt: "n < length fs" "n < length fe" "n < length v" by simp_all
  note ih = Suc.IH [OF f1 le]
  from ih lt have n1: "fs1 ! n = fs ! n" "fe1 ! n = fe ! n" by simp_all
  from Suc.prems f1 have step: "validFrameStep lastRow n (fs1, fe1, v1) = (fs', fe', v')"
    by simp
  show ?case
  proof (cases "frameValid lastRow (fs ! n) (fe ! n)")
    case True
    with step n1 have "fs' = fs1[n := max (fs ! n) 0]" "fe' = fe1[n := min (fe ! n) lastRow]"
      "v' = v1"
      by (auto simp: validFrameStep_def frameValid_def Let_def)
    with ih True lt show ?thesis
      by (auto simp: nth_list_update less_Suc_eq)
  next
    case False
    with step n1 have "fs' = fs1" "fe' = fe1" "v' = v1[n := False]"
      by (auto simp: validFrameStep_def frameValid_def Let_def)
    with ih False lt show ?thesis
      by (auto simp: nth_list_update less_Suc_eq)
  qed
qed

text \<open>
  C3. After \<open>computeValidFrames\<close> on a slice of \<open>n\<close> rows, for every row \<open>i\<close> of the slice:
  when \<open>frameStart[i] <= frameEnd[i]\<close>, \<open>frameEnd[i] >= 0\<close> and \<open>frameStart[i] <= lastRow\<close>
  hold of the resolved bounds, the frame start becomes \<open>max(frameStart[i], 0)\<close>, the
  frame end becomes \<open>min(frameEnd[i], lastRow)\<close> and the selector bit is left as it was;
  otherwise the selector bit is cleared and both bounds keep their raw values. So a
  bit that was set is set afterwards iff the three conditions hold. The operator runs
  the repair, for a function whose frame has an offset argument, on the bounds that
  \<open>updateFrameBounds\<close> has just resolved for the two sides, with the partition's row
  count minus 1 as \<open>lastRow\<close> and with a selector in which every bit is set; the calls
  made by the body are those of the two sides.
\<close>

theorem computeValidFrames_repair:
  assumes "computeValidFrames lastRow n fs fe v = (fs', fe', v')"
    and "nat n \<le> length fs" "nat n \<le> length fe" "nat n \<le> length v"
    and "i < nat n"
  shows "(fs ! i \<le> fe ! i \<and> fe ! i \<ge> 0 \<and> fs ! i \<le> lastRow \<longrightarrow>
            fs' ! i = max (fs ! i) 0 \<and> fe' ! i = min (fe ! i) lastRow \<and> v' ! i = v ! i)
       \<and> (\<not> (fs ! i \<le> fe ! i \<and> fe ! i \<ge> 0 \<and> fs ! i \<le> lastRow) \<longrightarrow>
            fs' ! i = fs ! i \<and> fe' ! i = fe ! i \<and> v' ! i = False)
       \<and> (v ! i \<longrightarrow> v' ! i = (fs ! i \<le> fe ! i \<and> fe ! i \<ge> 0 \<and> fs ! i \<le> lastRow))
       \<and> (\<forall>p partitionOffset windowFrame startRow rawPeerStarts rawPeerEnds b1 b2
             called1 called2.
            (startArg windowFrame \<noteq> None \<or> endArg windowFrame \<noteq> None)
            \<and> updateFrameBounds p partitionOffset windowFrame True startRow n
                 rawPeerStarts rawPeerEnds b1 = (None, fs, called1)
            \<and> updateFrameBounds p partitionOffset windowFrame False startRow n
                 rawPeerStarts rawPeerEnds b2 = (None, fe, called2) \<longrightarrow>
            computeFrameBuffers p partitionOffset windowFrame startRow n
                rawPeerStarts rawPeerEnds b1 b2
              = (None, computeValidFrames (numRows p - 1) n fs fe (replicate (nat n) True),
                 called1 @ called2))"
proof -
  from assms(1) have "fold (validFrameStep lastRow) [0..<nat n] (fs, fe, v) = (fs', fe', v')"
    by (simp add: computeValidFrames_def)
  from validFrameStep_fold [OF this assms(2-4)] assms(2-5)
  have rows: "(fs ! i \<le> fe ! i \<and> fe ! i \<ge> 0 \<and> fs ! i \<le> lastRow \<longrightarrow>
            fs' ! i = max (fs ! i) 0 \<and> fe' ! i = min (fe ! i) lastRow \<and> v' ! i = v ! i)
       \<and> (\<not> (fs ! i \<le> fe ! i \<and> fe ! i \<ge> 0 \<and> fs ! i \<le> lastRow) \<longrightarrow>
            fs' ! i = fs ! i \<and> fe' ! i = fe ! i \<and> v' ! i = False)
       \<and> (v ! i \<longrightarrow> v' ! i = (fs ! i \<le> fe ! i \<and> fe ! i \<ge> 0 \<and> fs ! i \<le> lastRow))"
    by (auto simp: frameValid_def)
  have "computeFrameBuffers p partitionOffset windowFrame startRow n
                rawPeerStarts rawPeerEnds b1 b2
              = (None, computeValidFrames (numRows p - 1) n fs fe (replicate (nat n) True),
                 called1 @ called2)"
    if "(startArg windowFrame \<noteq> None \<or> endArg windowFrame \<noteq> None)
            \<and> updateFrameBounds p partitionOffset windowFrame True startRow n
                 rawPeerStarts rawPeerEnds b1 = (None, fs, called1)
            \<and> updateFrameBounds p partitionOffset windowFrame False startRow n
                 rawPeerStarts rawPeerEnds b2 = (None, fe, called2)"
    for p partitionOffset windowFrame startRow rawPeerStarts rawPeerEnds b1 b2 called1 called2
    using that by (auto simp: computeFrameBuffers_def Let_def)
  with rows show ?thesis by blast
qed

text \<open>
  The spec's example: a 4-row partition (\<open>lastRow = 3\<close>); row 2 with the frame \<open>[2, 5]\<close>
  is repaired to \<open>[2, 3]\<close>, row 3 with the frame \<open>[4, 6]\<close> starts after the last row and
  is flagged invalid with its raw bounds kept.
\<close>

theorem computeValidFrames_repair_witness:
  "computeValidFrames 3 4 [0, 1, 2, 4] [3, 4, 5, 6] [True, True, True, True]
     = ([0, 1, 2, 4], [3, 3, 3, 6], [True, True, True, False])
   \<and> ([0, 1, 2, 4::int] ! 2 \<le> [3, 4, 5, 6::int] ! 2 \<and> [3, 4, 5, 6::int] ! 2 \<ge> 0
        \<and> [0, 1, 2, 4::int] ! 2 \<le> 3)
   \<and> [0, 1, 2, 4::int] ! 2 = max ([0, 1, 2, 4] ! 2) 0
   \<and> [3, 3, 3, 6::int] ! 2 = min ([3, 4, 5, 6] ! 2) 3"
proof -
  have ev: "computeValidFrames 3 4 [0, 1, 2, 4] [3, 4, 5, 6] [True, True, True, True]
     = ([0, 1, 2, 4], [3, 3, 3, 6], [True, True, True, False])"
    by (simp add: computeValidFrames_def validFrameStep_def upt_rec)
  from computeValidFrames_repair [OF ev, of 2] ev show ?thesis
    by simp
qed

lemma int32_t_eq_iff: "int32_t x = x \<longleftrightarrow> vector_size_range x"
  using int32_t_range [of x] by (auto simp: int32_t_id)

section \<open>Frame bound resolution\<close>

text \<open>
  C5. For a slice of \<open>n\<close> rows starting at \<open>startRow\<close> and either frame side,
  \<open>updateFrameBounds\<close> throws nothing and leaves in slot \<open>i\<close> of the bound buffer, for
  every row \<open>i\<close> of the slice: 0 for UNBOUNDED PRECEDING; the partition's row count
  minus 1 for UNBOUNDED FOLLOWING; for CURRENT ROW under RANGE the peer start of the row
  on the start side and its peer end on the end side; for CURRENT ROW under ROWS the
  absolute index \<open>startRow + i\<close> (a \<open>vector_size_t\<close>, like every row index). In these
  cases it makes no call on the partition.
\<close>

theorem updateFrameBounds_unbounded_current:
  assumes "i < nat n" and "nat n \<le> length rawFrameBounds"
    and "vector_size_range (startRow + int i)"
    and "boundType = (if isStartBound then frameStartType windowFrame
                      else frameEndType windowFrame)"
    and "updateFrameBounds p partitionOffset windowFrame isStartBound startRow n
           rawPeerStarts rawPeerEnds rawFrameBounds = (ex, b, called)"
  shows "(boundType = kUnboundedPreceding \<longrightarrow> ex = None \<and> b ! i = 0 \<and> called = [])
       \<and> (boundType = kUnboundedFollowing \<longrightarrow>
            ex = None \<and> b ! i = numRows p - 1 \<and> called = [])
       \<and> (boundType = kCurrentRow \<and> frameType windowFrame = kRange \<longrightarrow>
            ex = None \<and> b ! i = (if isStartBound then rawPeerStarts ! i else rawPeerEnds ! i)
            \<and> called = [])
       \<and> (boundType = kCurrentRow \<and> frameType windowFrame = kRows \<longrightarrow>
            ex = None \<and> b ! i = startRow + int i \<and> called = [])"
proof -
  have il: "i < length rawFrameBounds" using assms(1,2) by simp
  have io: "iota int32_t rawFrameBounds n startRow ! i = startRow + int i"
    using iota_nth [of int32_t i rawFrameBounds n startRow] il assms(1,3)
    by (simp add: int32_t_add_left int32_t_id)
  show ?thesis
    using assms(1,4,5) il io
    by (auto simp: updateFrameBounds_def Let_def fill_n_nth copy_n_nth
        split: BoundType.splits if_splits)
qed

text \<open>
  The end side of ROWS BETWEEN UNBOUNDED PRECEDING AND CURRENT ROW for the slice of rows
  4, 5 and 6 of a 10-row partition.
\<close>

theorem updateFrameBounds_unbounded_current_witness:
  "updateFrameBounds (distinctKeysPartition 10 (\<lambda>c. []))  4
       \<lparr>frameType = kRows, frameStartType = kUnboundedPreceding, frameEndType = kCurrentRow,
        startArg = None, endArg = None\<rparr>
       False 4 3 [4, 5, 6, 0] [4, 5, 6, 0] [0, 0, 0, 0]
     = (None, [4, 5, 6, 0], [])
   \<and> [4, 5, 6, 0::int] ! 1 = 4 + int 1"
proof -
  have ev: "updateFrameBounds (distinctKeysPartition 10 (\<lambda>c. []))  4
       \<lparr>frameType = kRows, frameStartType = kUnboundedPreceding, frameEndType = kCurrentRow,
        startArg = None, endArg = None\<rparr>
       False 4 3 [4, 5, 6, 0] [4, 5, 6, 0] [0, 0, 0, 0]
     = (None, [4, 5, 6, 0], [])"
    by (simp add: updateFrameBounds_def iota_def upt_rec int32_t_def)
  have r: "vector_size_range (4 + int 1)" by (simp add: vector_size_range_def)
  from updateFrameBounds_unbounded_current [OF _ _ r refl ev] ev show ?thesis
    by simp
qed

section \<open>Constant offsets\<close>

lemma updateKRowsFrameBounds_constant_nth:
  assumes "index frameArg = kConstantChannel" and "constantValue frameArg = Some c"
    and "j < nat n" and "nat n \<le> length rawFrameBounds"
  shows "updateKRowsFrameBounds p partitionOffset isKPreceding frameArg startRow n rawFrameBounds
           = (None, fst (snd (updateKRowsFrameBounds p partitionOffset isKPreceding frameArg
                                startRow n rawFrameBounds)), [])"
    and "fst (snd (updateKRowsFrameBounds p partitionOffset isKPreceding frameArg startRow n
                     rawFrameBounds)) ! j
           = int32_t (startRow + int j + (if isKPreceding then - c else c))"
proof -
  let ?seed = "int64_t (startRow + (if isKPreceding then int64_t (- c) else c))"
  have T: "\<And>a b. int32_t (int64_t a + b) = int32_t (a + b)"
    by (rule int32_t_int64_t_add)
  have res: "updateKRowsFrameBounds p partitionOffset isKPreceding frameArg startRow n
      rawFrameBounds = (None, iota int64_t rawFrameBounds n ?seed, [])"
    using assms(1,2) by (simp add: updateKRowsFrameBounds_def Let_def)
  then show "updateKRowsFrameBounds p partitionOffset isKPreceding frameArg startRow n
      rawFrameBounds
    = (None, fst (snd (updateKRowsFrameBounds p partitionOffset isKPreceding frameArg
                         startRow n rawFrameBounds)), [])"
    by simp
  have seed: "int32_t (?seed + k) = int32_t (startRow + k + (if isKPreceding then - c else c))"
    for k
  proof -
    have "int32_t (?seed + k)
        = int32_t (startRow + (if isKPreceding then int64_t (- c) else c) + k)"
      by (rule T)
    also have "\<dots> = int32_t (startRow + k + (if isKPreceding then - c else c))"
      using T [of "- c" "startRow + k"] by (simp add: algebra_simps)
    finally show ?thesis .
  qed
  show "fst (snd (updateKRowsFrameBounds p partitionOffset isKPreceding frameArg startRow n
                     rawFrameBounds)) ! j
           = int32_t (startRow + int j + (if isKPreceding then - c else c))"
    using iota_nth [of int64_t j rawFrameBounds n ?seed, OF T] assms(3,4)
    by (simp add: res seed)
qed

text \<open>
  While \<open>startRow + i - c\<close> (K PRECEDING) or \<open>startRow + i + c\<close> (K FOLLOWING) is a
  \<open>vector_size_t\<close>, it is the bound that \<open>updateKRowsFrameBounds\<close> stores for row \<open>i\<close> of
  the slice, for the constant offset \<open>c\<close>.
\<close>

lemma updateKRowsFrameBounds_constant_in_range:
  assumes "index frameArg = kConstantChannel" and "constantValue frameArg = Some c"
    and "i < nat n" and "nat n \<le> length rawFrameBounds"
    and "exact = startRow + int i + (if isKPreceding then - c else c)"
    and "vector_size_range exact"
    and "updateKRowsFrameBounds p partitionOffset isKPreceding frameArg startRow n
           rawFrameBounds = (ex, b, called)"
  shows "ex = None \<and> b ! i = exact \<and> called = []"
  using updateKRowsFrameBounds_constant_nth [OF assms(1-4), of p partitionOffset isKPreceding
      startRow] assms(5-7)
  by (simp add: int32_t_id)

text \<open>
  C6. The bound of a row is stored in a \<open>vector_size_t\<close> slot, and a constant offset is an
  \<open>int64_t\<close>: \<open>std::iota\<close> narrows the running 64-bit value to 32 bits in every slot. With
  the BIGINT constant \<open>2^32\<close>, which \<open>createWindowFrame\<close> accepts, as the K FOLLOWING
  offset of the slice of the rows 0, 1 and 2 of a 3-row partition, the bound stored for
  row \<open>i\<close> is \<open>i\<close>, the current row, and not \<open>0 + i + 2^32\<close>. So for the frame ROWS
  BETWEEN CURRENT ROW AND \<open>2^32\<close> FOLLOWING the repair finds the frames \<open>[i, i]\<close> in order
  and leaves them, where the bounds \<open>i + 2^32\<close> would have been cut to the last row 2,
  giving the frames \<open>[i, 2]\<close>. With the constant \<open>2^31 + 1\<close> as K PRECEDING offset, the
  bound stored for row 0 is \<open>2^31 - 1\<close>, a row after the current one, and not
  \<open>0 + 0 - (2^31 + 1)\<close>.
\<close>

theorem updateKRowsFrameBounds_constant_overflow:
  "createFrameChannelArg (Some (ConstantTypedExpr BIGINT (Some 4294967296)))
     = Inr (Some \<lparr>index = kConstantChannel, valueKind = None,
                  constantValue = Some 4294967296\<rparr>)
   \<and> updateKRowsFrameBounds (distinctKeysPartition 3 (\<lambda>c. [])) 0 False
        \<lparr>index = kConstantChannel, valueKind = None, constantValue = Some 4294967296\<rparr>
        0 3 [7, 7, 7]
     = (None, [0, 1, 2], [])
   \<and> [0, 1, 2 :: int] ! 1 \<noteq> 0 + int 1 + 4294967296
   \<and> updateFrameBounds (distinctKeysPartition 3 (\<lambda>c. [])) 0
        \<lparr>frameType = kRows, frameStartType = kCurrentRow, frameEndType = kFollowing,
         startArg = None,
         endArg = Some \<lparr>index = kConstantChannel, valueKind = None,
                         constantValue = Some 4294967296\<rparr>\<rparr>
        True 0 3 [0, 1, 2] [0, 1, 2] [7, 7, 7]
     = (None, [0, 1, 2], [])
   \<and> updateFrameBounds (distinctKeysPartition 3 (\<lambda>c. [])) 0
        \<lparr>frameType = kRows, frameStartType = kCurrentRow, frameEndType = kFollowing,
         startArg = None,
         endArg = Some \<lparr>index = kConstantChannel, valueKind = None,
                         constantValue = Some 4294967296\<rparr>\<rparr>
        False 0 3 [0, 1, 2] [0, 1, 2] [7, 7, 7]
     = (None, [0, 1, 2], [])
   \<and> computeValidFrames (numRows (distinctKeysPartition 3 (\<lambda>c. [])) - 1) 3
        [0, 1, 2] [0, 1, 2] [True, True, True]
     = ([0, 1, 2], [0, 1, 2], [True, True, True])
   \<and> computeValidFrames (numRows (distinctKeysPartition 3 (\<lambda>c. [])) - 1) 3
        [0, 1, 2] [0 + int 0 + 4294967296, 0 + int 1 + 4294967296, 0 + int 2 + 4294967296]
        [True, True, True]
     = ([0, 1, 2], [2, 2, 2], [True, True, True])
   \<and> updateKRowsFrameBounds (distinctKeysPartition 3 (\<lambda>c. [])) 0 True
        \<lparr>index = kConstantChannel, valueKind = None, constantValue = Some 2147483649\<rparr>
        0 1 [7]
     = (None, [2147483647], [])
   \<and> [2147483647 :: int] ! 0 \<noteq> 0 + int 0 - 2147483649"
proof -
  let ?p = "distinctKeysPartition 3 (\<lambda>c. [])"
  let ?a = "\<lparr>index = kConstantChannel, valueKind = None, constantValue = Some 4294967296\<rparr>"
  let ?f = "\<lparr>frameType = kRows, frameStartType = kCurrentRow, frameEndType = kFollowing,
             startArg = None, endArg = Some ?a\<rparr>"
  have a: "createFrameChannelArg (Some (ConstantTypedExpr BIGINT (Some 4294967296)))
      = Inr (Some ?a)"
    by (simp add: createFrameChannelArg_def)
  have k: "updateKRowsFrameBounds ?p 0 False ?a 0 3 [7, 7, 7] = (None, [0, 1, 2], [])"
    by (simp add: updateKRowsFrameBounds_def Let_def)
       (simp add: iota_def upt_rec int32_t_def int64_t_def)
  have s: "updateFrameBounds ?p 0 ?f True 0 3 [0, 1, 2] [0, 1, 2] [7, 7, 7]
      = (None, [0, 1, 2], [])"
    by (simp add: updateFrameBounds_def Let_def) (simp add: iota_def upt_rec int32_t_def)
  have e: "updateFrameBounds ?p 0 ?f False 0 3 [0, 1, 2] [0, 1, 2] [7, 7, 7]
      = (None, [0, 1, 2], [])"
    by (simp add: updateFrameBounds_def Let_def k)
  have l: "numRows ?p - 1 = 2" by (simp add: distinctKeysPartition_def)
  have v1: "computeValidFrames (numRows ?p - 1) 3 [0, 1, 2] [0, 1, 2] [True, True, True]
      = ([0, 1, 2], [0, 1, 2], [True, True, True])"
    unfolding l by (simp add: computeValidFrames_def validFrameStep_def upt_rec)
  have v2: "computeValidFrames (numRows ?p - 1) 3 [0, 1, 2]
        [0 + int 0 + 4294967296, 0 + int 1 + 4294967296, 0 + int 2 + 4294967296]
        [True, True, True]
      = ([0, 1, 2], [2, 2, 2], [True, True, True])"
    unfolding l by (simp add: computeValidFrames_def validFrameStep_def upt_rec)
  have q: "updateKRowsFrameBounds ?p 0 True
        \<lparr>index = kConstantChannel, valueKind = None, constantValue = Some 2147483649\<rparr>
        0 1 [7]
      = (None, [2147483647], [])"
    by (simp add: updateKRowsFrameBounds_def Let_def)
       (simp add: iota_def upt_rec int32_t_def int64_t_def)
  from a k s e v1 v2 q show ?thesis by simp
qed

section \<open>Column-derived offsets\<close>

lemma checkOffsets_None:
  "checkOffsets val is = None \<longleftrightarrow> (\<forall>i\<in>set is. \<not> offsetRefused (val ! i))"
  by (induction "is") (auto simp: offsetRefused_def split: option.splits)

lemma checkOffsets_first:
  assumes "\<forall>k\<in>set xs. \<not> offsetRefused (val ! k)" and "offsetRefused (val ! j)"
  shows "checkOffsets val (xs @ j # ys) = Some (offsetError (val ! j))"
  using assms
  by (induction xs) (auto simp: offsetRefused_def offsetError_def split: option.splits)

lemma checkOffsets_upt_first:
  assumes "j < n" and "offsetRefused (val ! j)" and "\<forall>k<j. \<not> offsetRefused (val ! k)"
  shows "checkOffsets val [0..<n] = Some (offsetError (val ! j))"
proof -
  have "[0..<n] = [0..<j] @ j # [Suc j..<n]"
    using assms(1) by (metis less_imp_le_nat upt_add_eq_append upt_conv_Cons zero_le le_add_diff_inverse)
  then show ?thesis
    using checkOffsets_first [of "[0..<j]" val j "[Suc j..<n]"] assms(2,3) by simp
qed

lemma updateKRowsOffsetsColumn_nth:
  assumes T: "\<And>a b. int32_t (T a + b) = int32_t (a + b)"
    and ok: "\<forall>k<nat n. \<not> offsetRefused (val ! k)"
    and i: "i < nat n" "nat n \<le> length rawFrameBounds"
  shows "updateKRowsOffsetsColumn T isKPreceding val startRow n rawFrameBounds
           = (None, snd (updateKRowsOffsetsColumn T isKPreceding val startRow n rawFrameBounds))"
    and "snd (updateKRowsOffsetsColumn T isKPreceding val startRow n rawFrameBounds) ! i
           = int32_t (int32_t (startRow + int i)
               + int32_t (T ((if isKPreceding then - 1 else 1) * rawValue (val ! i))))"
    and "snd (updateKRowsOffsetsColumn T isKPreceding val startRow n rawFrameBounds) ! i
           = int32_t (startRow + int i
               + (if isKPreceding then - rawValue (val ! i) else rawValue (val ! i)))"
proof -
  have c: "checkOffsets val [0..<nat n] = None"
    using ok by (simp add: checkOffsets_None)
  show "updateKRowsOffsetsColumn T isKPreceding val startRow n rawFrameBounds
           = (None, snd (updateKRowsOffsetsColumn T isKPreceding val startRow n rawFrameBounds))"
    by (simp add: updateKRowsOffsetsColumn_def c Let_def)
  have il: "i < length rawFrameBounds" using i by simp
  show n1: "snd (updateKRowsOffsetsColumn T isKPreceding val startRow n rawFrameBounds) ! i
           = int32_t (int32_t (startRow + int i)
               + int32_t (T ((if isKPreceding then - 1 else 1) * rawValue (val ! i))))"
    using il i(1) by (simp add: updateKRowsOffsetsColumn_def c Let_def fold_write_nth)
  have "int32_t (T ((if isKPreceding then - 1 else 1) * rawValue (val ! i)))
      = int32_t ((if isKPreceding then - 1 else 1) * rawValue (val ! i))"
    using T [of _ 0] by simp
  then show "snd (updateKRowsOffsetsColumn T isKPreceding val startRow n rawFrameBounds) ! i
           = int32_t (startRow + int i
               + (if isKPreceding then - rawValue (val ! i) else rawValue (val ! i)))"
    by (simp add: n1 int32_t_add_left int32_t_add_right)
qed

lemma checkOffsets_user_error:
  "checkOffsets val is = Some e \<Longrightarrow> \<exists>m. e = VeloxUserError m"
  by (induction "is") (auto split: option.splits if_splits)

text \<open>
  C4 as stated fails where it says that the error is raised before any frame bound of
  the slice is written to the frame buffer: the start side of a frame is resolved before
  its end side. Take one function with the frame ROWS BETWEEN CURRENT ROW AND \<open>c\<close>
  FOLLOWING and one partition of three rows whose offsets \<open>c\<close> are 1, null and 2. The
  first \<open>getOutput\<close> call throws the user error that the offset must not be null; at the
  throw the frame start buffer of the function, all zero before the call, holds the
  bounds 0, 1 and 2 of the rows of the slice, while the frame end buffer is as it was.
\<close>

theorem updateKRowsOffsetsColumn_counterexample:
  "frameStartBuffers' (newWindow [''sum''] [rowsCurrentRowColumnFollowing]
       [partitionWithNullOffset] 4) ! 0 = [0, 0, 0, 0]
   \<and> (\<exists>s. getOutput (newWindow [''sum''] [rowsCurrentRowColumnFollowing]
             [partitionWithNullOffset] 4)
           = Inl (VeloxUserError OffsetNotNull, s)
         \<and> frameStartBuffers' s ! 0 = [0, 1, 2, 0]
         \<and> frameEndBuffers' s ! 0 = [0, 0, 0, 0]
         \<and> calls s = [ResetPartition 0 partitionWithNullOffset, ExtractColumn 0 0 3 0,
                       ComputePeerBuffers 0 3 0 0, ExtractColumn 0 0 3 0])"
proof -
  have c: "(0::nat) \<noteq> kConstantChannel"
    by (simp add: kConstantChannel_def)
  have r: "replicate 4 (0::int) = [0, 0, 0, 0]" "replicate 3 True = [True, True, True]"
    by (simp_all add: numeral_eq_Suc)
  show ?thesis
    by (simp add: getOutput_def newWindow_def callResetPartition_def
        rowsCurrentRowColumnFollowing_def partitionWithNullOffset_def
        distinctKeysPartition_def callApplyForPartitionRows_def getInputColumns_def
        computePeerAndFrameBuffers_def computeFrameBuffers_def updateFrameBounds_def
        updateKRowsFrameBounds_def updateKRowsOffsetsColumn_def extractColumn_def
        copy_n_def iota_def upt_rec int32_t_def Let_def c r)
qed

text \<open>
  C4, amended. For a slice of \<open>n\<close> rows with a column-derived offset (\<open>val\<close> is the offset
  column of the rows of the slice as \<open>updateKRowsFrameBounds\<close> extracts it from the
  current partition, \<open>T\<close> its element type, \<open>int32_t\<close> for INTEGER and else \<open>int64_t\<close>): if
  any offset of the slice is null or negative, offset resolution throws a user error
  and the bound buffer of the side being resolved is as it was before the call (the
  error is raised before any bound of that side is written); the error is that of the
  first such row \<open>j\<close>: that the offset must not be null, or the message that prints the
  negative number. If no offset of the slice is null or negative, nothing is thrown and
  the bound of every row \<open>i\<close> of the slice is \<open>(startRow + i) + offset[i]\<close> for
  K FOLLOWING and \<open>(startRow + i) - offset[i]\<close> for K PRECEDING, whenever that value is
  in the range of \<open>vector_size_t\<close>. \<open>updateKRowsFrameBounds\<close> gives this result after
  its \<open>extractColumn\<close> call. In the frame buffers of the function: when the offset
  column is on the start side, the error leaves both frame buffers as they were; when it
  is on the end side, the error leaves the frame end buffer as it was, and the frame
  start buffer holds the bounds that the start side has resolved.
\<close>

theorem updateKRowsOffsetsColumn_resolved:
  assumes "T = int32_t \<or> T = int64_t"
    and "r = updateKRowsOffsetsColumn T isKPreceding val startRow n rawFrameBounds"
  shows "(\<forall>j<nat n. (val ! j = None \<or> (\<exists>v<0. val ! j = Some v))
             \<and> (\<forall>k<j. \<exists>v\<ge>0. val ! k = Some v) \<longrightarrow>
           r = (Some (case val ! j of None \<Rightarrow> VeloxUserError OffsetNotNull
                      | Some v \<Rightarrow> VeloxUserError (OffsetNotNegative v)), rawFrameBounds))
       \<and> ((\<forall>k<nat n. \<exists>v\<ge>0. val ! k = Some v) \<and> nat n \<le> length rawFrameBounds \<longrightarrow>
           fst r = None
           \<and> (\<forall>i<nat n. \<forall>off exact. val ! i = Some off
                  \<and> exact = (startRow + int i) + (if isKPreceding then - off else off)
                  \<and> vector_size_range exact \<longrightarrow>
                snd r ! i = exact))
       \<and> ((\<exists>j<nat n. val ! j = None \<or> (\<exists>v<0. val ! j = Some v)) \<longrightarrow>
           (\<exists>m. fst r = Some (VeloxUserError m)) \<and> snd r = rawFrameBounds)
       \<and> (\<forall>p partitionOffset frameArg k.
            index frameArg \<noteq> kConstantChannel \<and> valueKind frameArg = Some k
            \<and> T = (if k = INTEGER then int32_t else int64_t)
            \<and> val = extractColumn p (index frameArg) partitionOffset n \<longrightarrow>
            updateKRowsFrameBounds p partitionOffset isKPreceding frameArg startRow n
              rawFrameBounds
              = (fst r, snd r, [ExtractColumn (index frameArg) partitionOffset n 0]))
       \<and> (\<forall>p partitionOffset windowFrame frameArg k ps pe other.
            frameType windowFrame = kRows
            \<and> index frameArg \<noteq> kConstantChannel \<and> valueKind frameArg = Some k
            \<and> T = (if k = INTEGER then int32_t else int64_t)
            \<and> val = extractColumn p (index frameArg) partitionOffset n
            \<and> (\<exists>j<nat n. val ! j = None \<or> (\<exists>v<0. val ! j = Some v)) \<longrightarrow>
            (frameStartType windowFrame = (if isKPreceding then kPreceding else kFollowing)
             \<and> startArg windowFrame = Some frameArg \<longrightarrow>
               computeFrameBuffers p partitionOffset windowFrame startRow n ps pe
                   rawFrameBounds other
                 = (fst r, (rawFrameBounds, other, replicate (nat n) True),
                    [ExtractColumn (index frameArg) partitionOffset n 0]))
            \<and> (\<forall>fs called.
                 frameEndType windowFrame = (if isKPreceding then kPreceding else kFollowing)
                 \<and> endArg windowFrame = Some frameArg
                 \<and> updateFrameBounds p partitionOffset windowFrame True startRow n ps pe other
                     = (None, fs, called) \<longrightarrow>
               computeFrameBuffers p partitionOffset windowFrame startRow n ps pe
                   other rawFrameBounds
                 = (fst r, (fs, rawFrameBounds, replicate (nat n) True),
                    called @ [ExtractColumn (index frameArg) partitionOffset n 0])))"
proof -
  have err: "(\<exists>m. fst r = Some (VeloxUserError m)) \<and> snd r = rawFrameBounds"
    if "\<exists>j<nat n. val ! j = None \<or> (\<exists>v<0. val ! j = Some v)"
  proof -
    from that obtain j where "j < nat n" "offsetRefused (val ! j)"
      by (auto simp: offsetRefused_def)
    then have "\<not> (\<forall>i\<in>set [0..<nat n]. \<not> offsetRefused (val ! i))"
      by auto
    then obtain e where e: "checkOffsets val [0..<nat n] = Some e"
      using checkOffsets_None [of val "[0..<nat n]"]
      by (cases "checkOffsets val [0..<nat n]") auto
    from checkOffsets_user_error [OF e] e show ?thesis
      by (auto simp: assms(2) updateKRowsOffsetsColumn_def)
  qed
  have krows: "updateKRowsFrameBounds p partitionOffset isKPreceding frameArg startRow n
        rawFrameBounds
      = (fst r, snd r, [ExtractColumn (index frameArg) partitionOffset n 0])"
    if "index frameArg \<noteq> kConstantChannel" "valueKind frameArg = Some k"
      "T = (if k = INTEGER then int32_t else int64_t)"
      "val = extractColumn p (index frameArg) partitionOffset n"
    for p partitionOffset and frameArg :: FrameChannelArg and k
    using that
    by (simp add: assms(2) updateKRowsFrameBounds_def Let_def split: prod.splits)
  have side: "updateFrameBounds p partitionOffset windowFrame isStartBound startRow n ps pe
        rawFrameBounds
      = (fst r, snd r, [ExtractColumn (index frameArg) partitionOffset n 0])"
    if "frameType windowFrame = kRows"
      "(if isStartBound then frameStartType windowFrame else frameEndType windowFrame)
         = (if isKPreceding then kPreceding else kFollowing)"
      "(if isStartBound then startArg windowFrame else endArg windowFrame) = Some frameArg"
      "index frameArg \<noteq> kConstantChannel" "valueKind frameArg = Some k"
      "T = (if k = INTEGER then int32_t else int64_t)"
      "val = extractColumn p (index frameArg) partitionOffset n"
    for p partitionOffset and windowFrame :: WindowFrame and isStartBound
      and frameArg :: FrameChannelArg and k ps pe
    using that(1-3) krows [OF that(4-7)]
    by (cases isKPreceding) (simp_all add: updateFrameBounds_def Let_def)
  show ?thesis
  proof (intro conjI allI impI)
    assume "\<exists>j<nat n. val ! j = None \<or> (\<exists>v<0. val ! j = Some v)"
    from err [OF this]
    show "\<exists>m. fst r = Some (VeloxUserError m)" and "snd r = rawFrameBounds"
      by simp_all
  next
    fix p partitionOffset and frameArg :: FrameChannelArg and k
    assume "index frameArg \<noteq> kConstantChannel \<and> valueKind frameArg = Some k
              \<and> T = (if k = INTEGER then int32_t else int64_t)
              \<and> val = extractColumn p (index frameArg) partitionOffset n"
    then show "updateKRowsFrameBounds p partitionOffset isKPreceding frameArg startRow n
                rawFrameBounds
              = (fst r, snd r, [ExtractColumn (index frameArg) partitionOffset n 0])"
      using krows [of frameArg k p partitionOffset] by simp
  next
    fix j
    assume j: "j < nat n"
      and h: "(val ! j = None \<or> (\<exists>v<0. val ! j = Some v)) \<and> (\<forall>k<j. \<exists>v\<ge>0. val ! k = Some v)"
    from h have "offsetRefused (val ! j)" "\<forall>k<j. \<not> offsetRefused (val ! k)"
      by (auto simp: offsetRefused_def)
    from checkOffsets_upt_first [OF j this]
    show "r = (Some (case val ! j of None \<Rightarrow> VeloxUserError OffsetNotNull
                        | Some v \<Rightarrow> VeloxUserError (OffsetNotNegative v)), rawFrameBounds)"
      by (simp add: assms(2) updateKRowsOffsetsColumn_def offsetError_def)
  next
    assume h: "(\<forall>k<nat n. \<exists>v\<ge>0. val ! k = Some v) \<and> nat n \<le> length rawFrameBounds"
    then have "checkOffsets val [0..<nat n] = None"
      by (auto simp: checkOffsets_None offsetRefused_def)
    then show "fst r = None"
      by (simp add: assms(2) updateKRowsOffsetsColumn_def Let_def)
  next
    fix i off exact
    assume h: "(\<forall>k<nat n. \<exists>v\<ge>0. val ! k = Some v) \<and> nat n \<le> length rawFrameBounds"
      and i: "i < nat n"
      and e: "val ! i = Some off
                \<and> exact = (startRow + int i) + (if isKPreceding then - off else off)
                \<and> vector_size_range exact"
    have T: "\<And>a b. int32_t (T a + b) = int32_t (a + b)"
      using assms(1) by (auto simp: int32_t_add_left int32_t_int64_t_add)
    from h have ok: "\<forall>k<nat n. \<not> offsetRefused (val ! k)"
      by (auto simp: offsetRefused_def)
    from h have le: "nat n \<le> length rawFrameBounds" by simp
    from e have "vector_size_range exact" by blast
    then have x: "int32_t exact = exact" by (rule int32_t_id)
    from e have "val ! i = Some off"
      "exact = (startRow + int i) + (if isKPreceding then - off else off)" by simp_all
    with updateKRowsOffsetsColumn_nth(3) [OF T ok i le, of isKPreceding startRow]
    have "snd r ! i = int32_t exact"
      by (simp add: assms(2) rawValue_def)
    with x show "snd r ! i = exact" by simp
  next
    fix p partitionOffset and windowFrame :: WindowFrame and frameArg :: FrameChannelArg
      and k ps pe other
    assume h: "frameType windowFrame = kRows
              \<and> index frameArg \<noteq> kConstantChannel \<and> valueKind frameArg = Some k
              \<and> T = (if k = INTEGER then int32_t else int64_t)
              \<and> val = extractColumn p (index frameArg) partitionOffset n
              \<and> (\<exists>j<nat n. val ! j = None \<or> (\<exists>v<0. val ! j = Some v))"
      and s: "frameStartType windowFrame = (if isKPreceding then kPreceding else kFollowing)
              \<and> startArg windowFrame = Some frameArg"
    from h err obtain m where m: "fst r = Some (VeloxUserError m)" "snd r = rawFrameBounds"
      by blast
    from h s have "updateFrameBounds p partitionOffset windowFrame True startRow n ps pe
        rawFrameBounds
      = (fst r, snd r, [ExtractColumn (index frameArg) partitionOffset n 0])"
      by (intro side) simp_all
    with m show "computeFrameBuffers p partitionOffset windowFrame startRow n ps pe
                   rawFrameBounds other
                 = (fst r, (rawFrameBounds, other, replicate (nat n) True),
                    [ExtractColumn (index frameArg) partitionOffset n 0])"
      by (simp add: computeFrameBuffers_def Let_def)
  next
    fix p partitionOffset and windowFrame :: WindowFrame and frameArg :: FrameChannelArg
      and k ps pe other fs called
    assume h: "frameType windowFrame = kRows
              \<and> index frameArg \<noteq> kConstantChannel \<and> valueKind frameArg = Some k
              \<and> T = (if k = INTEGER then int32_t else int64_t)
              \<and> val = extractColumn p (index frameArg) partitionOffset n
              \<and> (\<exists>j<nat n. val ! j = None \<or> (\<exists>v<0. val ! j = Some v))"
      and s: "frameEndType windowFrame = (if isKPreceding then kPreceding else kFollowing)
              \<and> endArg windowFrame = Some frameArg
              \<and> updateFrameBounds p partitionOffset windowFrame True startRow n ps pe other
                  = (None, fs, called)"
    from h err obtain m where m: "fst r = Some (VeloxUserError m)" "snd r = rawFrameBounds"
      by blast
    from h s have "updateFrameBounds p partitionOffset windowFrame False startRow n ps pe
        rawFrameBounds
      = (fst r, snd r, [ExtractColumn (index frameArg) partitionOffset n 0])"
      by (intro side) simp_all
    with m s show "computeFrameBuffers p partitionOffset windowFrame startRow n ps pe
                   other rawFrameBounds
                 = (fst r, (fs, rawFrameBounds, replicate (nat n) True),
                    called @ [ExtractColumn (index frameArg) partitionOffset n 0])"
      by (simp add: computeFrameBuffers_def Let_def)
  qed
qed

text \<open>
  A slice of three rows starting at row 4 with the K PRECEDING offsets 1, 0 and 2 in
  an INTEGER column; the same slice with a null in its second row; and the frame ROWS
  BETWEEN CURRENT ROW AND \<open>c\<close> FOLLOWING on the slice of the three rows of the partition
  whose offsets \<open>c\<close> are 1, null and 2: the start bounds are in the frame start buffer,
  and the frame end buffer is as it was.
\<close>

theorem updateKRowsOffsetsColumn_resolved_witness:
  "updateKRowsOffsetsColumn int32_t True [Some 1, Some 0, Some 2] 4 3 [0, 0, 0]
     = (None, [3, 5, 4])
   \<and> [3, 5, 4 :: int] ! 2 = (4 + int 2) + (- 2)
   \<and> updateKRowsOffsetsColumn int32_t True [Some 1, None, Some 2] 4 3 [0, 0, 0]
     = (Some (VeloxUserError OffsetNotNull), [0, 0, 0])
   \<and> computeFrameBuffers partitionWithNullOffset 0 rowsCurrentRowColumnFollowing 0 3
        [0, 1, 2, 0] [0, 1, 2, 0] [0, 0, 0, 0] [0, 0, 0, 0]
     = (Some (VeloxUserError OffsetNotNull), ([0, 1, 2, 0], [0, 0, 0, 0], [True, True, True]),
        [ExtractColumn 0 0 3 0])"
proof -
  let ?v = "[Some 1, Some 0, Some (2::int)]"
  let ?w = "[Some 1, None, Some (2::int)]"
  have g: "(\<forall>k<nat 3. \<exists>v\<ge>0. ?v ! k = Some v) \<and> nat 3 \<le> length [0, 0, 0::int]"
    by (auto simp: numeral_3_eq_3 less_Suc_eq)
  have r: "?v ! 2 = Some 2 \<and> (4 + int 2) + (- 2) = (4 + int 2) + (if True then - 2 else 2)
      \<and> vector_size_range ((4 + int 2) + (- 2))"
    by (simp add: vector_size_range_def)
  have f: "(?w ! 1 = None \<or> (\<exists>v<0. ?w ! 1 = Some v)) \<and> (\<forall>k<1. \<exists>v\<ge>0. ?w ! k = Some v)"
    by simp
  note t1 = updateKRowsOffsetsColumn_resolved [OF disjI1 [OF refl] refl,
      where isKPreceding = True and val = ?v and startRow = 4 and n = 3
        and rawFrameBounds = "[0, 0, 0]", THEN conjunct2, THEN conjunct1, rule_format, OF g,
      THEN conjunct2, rule_format, of 2 2 "(4 + int 2) + (- 2)", OF _ r]
  note t2 = updateKRowsOffsetsColumn_resolved [OF disjI1 [OF refl] refl,
      where isKPreceding = True and val = ?w and startRow = 4 and n = 3
        and rawFrameBounds = "[0, 0, 0]", THEN conjunct1, rule_format, of 1, OF _ f]
  have a: "snd (updateKRowsOffsetsColumn int32_t True ?v 4 3 [0, 0, 0]) ! 2 = (4 + int 2) + (- 2)"
    using t1 by simp
  have b: "updateKRowsOffsetsColumn int32_t True ?w 4 3 [0, 0, 0]
     = (Some (VeloxUserError OffsetNotNull), [0, 0, 0])"
    using t2 by simp
  have ev: "updateKRowsOffsetsColumn int32_t True ?v 4 3 [0, 0, 0] = (None, [3, 5, 4])"
    by (simp add: updateKRowsOffsetsColumn_def rawValue_def upt_rec int32_t_def)
  let ?p = "partitionWithNullOffset"
  let ?f = "rowsCurrentRowColumnFollowing"
  let ?a = "\<lparr>index = 0, valueKind = Some BIGINT, constantValue = None\<rparr>"
  let ?c = "extractColumn ?p (index ?a) 0 3"
  have col: "extractColumn ?p 0 0 3 = [Some 1, None, Some 2]"
    by (simp add: extractColumn_def partitionWithNullOffset_def distinctKeysPartition_def)
  have h: "frameType ?f = kRows
      \<and> index ?a \<noteq> kConstantChannel \<and> valueKind ?a = Some BIGINT
      \<and> int64_t = (if BIGINT = INTEGER then int32_t else int64_t)
      \<and> ?c = extractColumn ?p (index ?a) 0 3
      \<and> (\<exists>j<nat 3. ?c ! j = None \<or> (\<exists>v<0. ?c ! j = Some v))"
  proof -
    have "(1::nat) < nat 3 \<and> ?c ! 1 = None" by (simp add: col)
    then have "\<exists>j<nat 3. ?c ! j = None \<or> (\<exists>v<0. ?c ! j = Some v)" by blast
    then show ?thesis
      by (simp add: rowsCurrentRowColumnFollowing_def kConstantChannel_def)
  qed
  have s: "frameEndType ?f = (if False then kPreceding else kFollowing)
      \<and> endArg ?f = Some ?a
      \<and> updateFrameBounds ?p 0 ?f True 0 3 [0, 1, 2, 0] [0, 1, 2, 0] [0, 0, 0, 0]
          = (None, [0, 1, 2, 0], [])"
    by (simp add: updateFrameBounds_def rowsCurrentRowColumnFollowing_def Let_def)
       (simp add: iota_def upt_rec int32_t_def)
  have f1: "(?c ! 1 = None \<or> (\<exists>v<0. ?c ! 1 = Some v)) \<and> (\<forall>k<1. \<exists>v\<ge>0. ?c ! k = Some v)"
    by (simp add: col)
  note t = updateKRowsOffsetsColumn_resolved [OF disjI2 [OF refl] refl,
      where isKPreceding = False and val = ?c and startRow = 0 and n = 3
        and rawFrameBounds = "[0, 0, 0, 0]"]
  note t3 = t [THEN conjunct1, rule_format, of 1, OF _ f1]
  note t5 = t [THEN conjunct2, THEN conjunct2, THEN conjunct2, THEN conjunct2, rule_format,
      OF h, THEN conjunct2, rule_format, OF s]
  have e: "fst (updateKRowsOffsetsColumn int64_t False ?c 0 3 [0, 0, 0, 0])
      = Some (VeloxUserError OffsetNotNull)"
    using t3 by (simp add: col)
  have r3: "replicate (nat 3) True = [True, True, True]" by (simp add: numeral_eq_Suc)
  from t5 e r3 have w: "computeFrameBuffers ?p 0 ?f 0 3
        [0, 1, 2, 0] [0, 1, 2, 0] [0, 0, 0, 0] [0, 0, 0, 0]
     = (Some (VeloxUserError OffsetNotNull), ([0, 1, 2, 0], [0, 0, 0, 0], [True, True, True]),
        [ExtractColumn 0 0 3 0])"
    by simp
  from a b ev w show ?thesis by simp
qed

text \<open>
  C10 as stated fails for the smallest offsets it speaks of: with the K PRECEDING
  offset \<open>2^31\<close> (a non-negative BIGINT value of magnitude at least \<open>2^31\<close>) at row 0 of
  the slice starting at row 0, the product \<open>-2^31\<close> fits in 32 bits and the bound is
  the exact integer \<open>(0 + 0) - 2^31\<close>.
\<close>

theorem updateKRowsOffsetsColumn_narrowing_counterexample:
  "updateKRowsOffsetsColumn int64_t True [Some 2147483648] 0 1 [7] = (None, [- 2147483648])
   \<and> (2147483648 :: int) \<ge> 2 ^ 31
   \<and> [- 2147483648 :: int] ! 0 = (0 + int 0) - 2147483648"
  by (simp add: updateKRowsOffsetsColumn_def rawValue_def int32_t_def int64_t_def)

text \<open>
  C10, amended. For a column-derived offset whose values in the slice are all non-null
  and non-negative (\<open>T\<close> is the element type of the column), the bound of row \<open>i\<close> is
  computed by narrowing the product \<open>(\<plusminus>1) * offset[i]\<close>, taken in \<open>T\<close>, to
  \<open>vector_size_t\<close> and adding it to \<open>startRow + i\<close> in \<open>vector_size_t\<close>; so the bound
  is \<open>(startRow + i) \<plusminus> offset[i]\<close> reduced modulo \<open>2^32\<close> into the 32-bit range, and it
  is the exact integer iff the exact integer is in that range. For an offset of at
  least \<open>2^31\<close> that passed the validation and a row index \<open>startRow + i\<close> that is a
  non-negative \<open>vector_size_t\<close>, the bound differs from the exact integer always under
  K FOLLOWING, and under K PRECEDING exactly when the offset exceeds
  \<open>startRow + i + 2^31\<close>.
\<close>

theorem updateKRowsOffsetsColumn_narrowing:
  assumes "T = int32_t \<or> T = int64_t"
    and "\<forall>k<nat n. \<exists>v\<ge>0. val ! k = Some v" and "nat n \<le> length rawFrameBounds"
    and "i < nat n" and "val ! i = Some off"
    and "exact = (startRow + int i) + (if isKPreceding then - off else off)"
    and "b = snd (updateKRowsOffsetsColumn T isKPreceding val startRow n rawFrameBounds)"
  shows "b ! i = int32_t (int32_t (startRow + int i)
                   + int32_t (T ((if isKPreceding then - 1 else 1) * off)))
       \<and> b ! i = int32_t exact
       \<and> (b ! i = exact \<longleftrightarrow> vector_size_range exact)
       \<and> (2 ^ 31 \<le> off \<and> 0 \<le> startRow + int i \<and> \<not> isKPreceding \<longrightarrow> b ! i \<noteq> exact)
       \<and> (2 ^ 31 \<le> off \<and> 0 \<le> startRow + int i \<and> startRow + int i < 2 ^ 31 \<and> isKPreceding \<longrightarrow>
            (b ! i \<noteq> exact \<longleftrightarrow> startRow + int i + 2 ^ 31 < off))"
proof -
  have T: "\<And>a b. int32_t (T a + b) = int32_t (a + b)"
    using assms(1) by (auto simp: int32_t_add_left int32_t_int64_t_add)
  from assms(2) have ok: "\<forall>k<nat n. \<not> offsetRefused (val ! k)"
    by (auto simp: offsetRefused_def)
  note nth = updateKRowsOffsetsColumn_nth [OF T ok assms(4,3), of isKPreceding startRow]
  have a: "b ! i = int32_t (int32_t (startRow + int i)
                   + int32_t (T ((if isKPreceding then - 1 else 1) * off)))"
    using nth(2) assms(5,7) by (simp add: rawValue_def)
  have e: "b ! i = int32_t exact"
    using nth(3) assms(5,6,7) by (simp add: rawValue_def)
  have r: "b ! i = exact \<longleftrightarrow> vector_size_range exact"
    by (simp add: e int32_t_eq_iff)
  have f: "2 ^ 31 \<le> off \<and> 0 \<le> startRow + int i \<and> \<not> isKPreceding \<longrightarrow> b ! i \<noteq> exact"
  proof
    assume "2 ^ 31 \<le> off \<and> 0 \<le> startRow + int i \<and> \<not> isKPreceding"
    then have "\<not> vector_size_range exact"
      using assms(6) by (simp add: vector_size_range_def)
    with r show "b ! i \<noteq> exact" by simp
  qed
  have p: "2 ^ 31 \<le> off \<and> 0 \<le> startRow + int i \<and> startRow + int i < 2 ^ 31 \<and> isKPreceding \<longrightarrow>
            (b ! i \<noteq> exact \<longleftrightarrow> startRow + int i + 2 ^ 31 < off)"
  proof
    assume "2 ^ 31 \<le> off \<and> 0 \<le> startRow + int i \<and> startRow + int i < 2 ^ 31 \<and> isKPreceding"
    then have "vector_size_range exact \<longleftrightarrow> \<not> startRow + int i + 2 ^ 31 < off"
      using assms(6) by (auto simp: vector_size_range_def)
    with r show "b ! i \<noteq> exact \<longleftrightarrow> startRow + int i + 2 ^ 31 < off" by simp
  qed
  from a e r f p show ?thesis by blast
qed

text \<open>The K FOLLOWING offset \<open>2^31\<close> at row 5: the bound wraps to \<open>5 - 2^31\<close>.\<close>

theorem updateKRowsOffsetsColumn_narrowing_witness:
  "updateKRowsOffsetsColumn int64_t False [Some 2147483648] 5 1 [0] = (None, [- 2147483643])
   \<and> [- 2147483643 :: int] ! 0 = int32_t ((5 + int 0) + 2147483648)
   \<and> [- 2147483643 :: int] ! 0 \<noteq> (5 + int 0) + 2147483648"
proof -
  have ev: "updateKRowsOffsetsColumn int64_t False [Some 2147483648] 5 1 [0]
      = (None, [- 2147483643])"
    by (simp add: updateKRowsOffsetsColumn_def rawValue_def int32_t_def int64_t_def)
  have g: "\<forall>k<nat 1. \<exists>v\<ge>0. [Some (2147483648::int)] ! k = Some v" by simp
  from updateKRowsOffsetsColumn_narrowing [OF disjI2 [OF refl] g _ _ _ refl refl,
      where i = 0 and off = 2147483648 and rawFrameBounds = "[0]" and isKPreceding = False
        and startRow = 5] ev
  show ?thesis by simp
qed

section \<open>The frame buffers of a slice\<close>

text \<open>The calls that resolving a side makes do not depend on the offsets it reads.\<close>

lemma updateKRowsFrameBounds_calls:
  "snd (snd (updateKRowsFrameBounds p off isKPreceding a startRow n buf))
     = (if index a = kConstantChannel then [] else [ExtractColumn (index a) off n 0])"
  by (simp add: updateKRowsFrameBounds_def Let_def split: option.splits prod.splits)

lemma updateFrameBounds_calls:
  "snd (snd (updateFrameBounds p off f isStartBound startRow n ps pe buf))
     = offsetCalls f isStartBound off n"
  by (cases "if isStartBound then frameStartType f else frameEndType f")
     (simp_all add: updateFrameBounds_def offsetCalls_def isKBound_def Let_def
        updateKRowsFrameBounds_calls split: option.splits)

lemma computeFrameBuffers_calls:
  assumes "computeFrameBuffers p off f startRow n ps pe fs fe = (None, r, called)"
  shows "called = offsetCalls f True off n @ offsetCalls f False off n"
proof -
  obtain e1 b1 c1 where
    u1: "updateFrameBounds p off f True startRow n ps pe fs = (e1, b1, c1)"
    by (metis prod_cases3)
  obtain e2 b2 c2 where
    u2: "updateFrameBounds p off f False startRow n ps pe fe = (e2, b2, c2)"
    by (metis prod_cases3)
  from updateFrameBounds_calls [of p off f True startRow n ps pe fs] u1
  have c1: "c1 = offsetCalls f True off n" by simp
  from updateFrameBounds_calls [of p off f False startRow n ps pe fe] u2
  have c2: "c2 = offsetCalls f False off n" by simp
  from assms u1 u2 have "called = c1 @ c2"
    by (auto simp: computeFrameBuffers_def Let_def split: option.splits if_splits)
  with c1 c2 show ?thesis by simp
qed

text \<open>One round of the loop over the functions that does not throw.\<close>

lemma frameLoop_Cons:
  assumes "frameLoop p startRow n (i # is) st = Inr st'"
  obtains fs fe valid where
    "computeFrameBuffers p (partitionOffset' st) (windowFrames' st ! i) startRow n
           (peerStartBuffer' st) (peerEndBuffer' st)
           (frameStartBuffers' st ! i) (frameEndBuffers' st ! i)
         = (None, (fs, fe, valid),
            offsetCalls (windowFrames' st ! i) True (partitionOffset' st) n
               @ offsetCalls (windowFrames' st ! i) False (partitionOffset' st) n)"
    "frameLoop p startRow n is
          (st\<lparr>frameStartBuffers' := (frameStartBuffers' st)[i := fs],
              frameEndBuffers' := (frameEndBuffers' st)[i := fe],
              validFrames' := (validFrames' st)[i := valid],
              calls := calls st
                @ (offsetCalls (windowFrames' st ! i) True (partitionOffset' st) n
                  @ offsetCalls (windowFrames' st ! i) False (partitionOffset' st) n)\<rparr>) = Inr st'"
proof -
  from assms obtain fs fe valid called where
    c: "computeFrameBuffers p (partitionOffset' st) (windowFrames' st ! i) startRow n
           (peerStartBuffer' st) (peerEndBuffer' st)
           (frameStartBuffers' st ! i) (frameEndBuffers' st ! i)
         = (None, (fs, fe, valid), called)" and
    r: "frameLoop p startRow n is
          (st\<lparr>frameStartBuffers' := (frameStartBuffers' st)[i := fs],
              frameEndBuffers' := (frameEndBuffers' st)[i := fe],
              validFrames' := (validFrames' st)[i := valid],
              calls := calls st @ called\<rparr>) = Inr st'"
    by (auto simp: Let_def split: prod.splits option.splits)
  note k = computeFrameBuffers_calls [OF c]
  show thesis
    by (rule that [of fs fe valid]) (use c r k in simp_all)
qed

text \<open>Neither the frame loop nor a slice takes a partition from the window build.\<close>

lemma frameLoop_windowBuild:
  "frameLoop p startRow n is st = Inr st' \<Longrightarrow> windowBuild' st' = windowBuild' st"
proof (induction "is" arbitrary: st)
  case Nil
  then show ?case by simp
next
  case (Cons i "is")
  from Cons.prems obtain fs fe valid where
    r: "frameLoop p startRow n is
          (st\<lparr>frameStartBuffers' := (frameStartBuffers' st)[i := fs],
              frameEndBuffers' := (frameEndBuffers' st)[i := fe],
              validFrames' := (validFrames' st)[i := valid],
              calls := calls st
                @ (offsetCalls (windowFrames' st ! i) True (partitionOffset' st) n
                  @ offsetCalls (windowFrames' st ! i) False (partitionOffset' st) n)\<rparr>) = Inr st'"
    by (rule frameLoop_Cons)
  from Cons.IH [OF r] show ?case by simp
qed

lemma callApplyForPartitionRows_windowBuild:
  assumes "callApplyForPartitionRows st startRow endRow resultOffset = Inr st'"
  shows "windowBuild' st' = windowBuild' st"
  using assms
  by (auto simp: callApplyForPartitionRows_def getInputColumns_def
        computePeerAndFrameBuffers_def Let_def
      split: sum.splits option.splits prod.splits if_splits
      dest!: frameLoop_windowBuild)

lemma callResetPartition_windowBuild:
  "currentPartition' (callResetPartition st) \<noteq> None
     \<Longrightarrow> length (windowBuild' (callResetPartition st)) < length (windowBuild' st)"
  by (simp add: callResetPartition_def Let_def split: list.splits)

text \<open>
  The loop over the functions writes the three buffers of each function, makes the calls
  of the two sides of each frame, and changes nothing else.
\<close>

lemma frameLoop_frame:
  "frameLoop p startRow n is st = Inr st' \<Longrightarrow>
     numInputColumns' st' = numInputColumns' st
     \<and> currentPartition' st' = currentPartition' st
     \<and> windowFunctions' st' = windowFunctions' st
     \<and> windowFrames' st' = windowFrames' st
     \<and> numRows' st' = numRows' st
     \<and> numProcessedRows' st' = numProcessedRows' st
     \<and> numRowsPerOutput' st' = numRowsPerOutput' st
     \<and> partitionOffset' st' = partitionOffset' st
     \<and> peerStartRow' st' = peerStartRow' st
     \<and> peerEndRow' st' = peerEndRow' st
     \<and> peerStartBuffer' st' = peerStartBuffer' st
     \<and> peerEndBuffer' st' = peerEndBuffer' st
     \<and> calls st' = calls st
         @ concat (map (\<lambda>w. offsetCalls (windowFrames' st ! w) True (partitionOffset' st) n
                          @ offsetCalls (windowFrames' st ! w) False (partitionOffset' st) n)
                     is)
     \<and> length (frameStartBuffers' st') = length (frameStartBuffers' st)
     \<and> length (frameEndBuffers' st') = length (frameEndBuffers' st)
     \<and> length (validFrames' st') = length (validFrames' st)"
proof (induction "is" arbitrary: st)
  case Nil
  then show ?case by simp
next
  case (Cons i "is")
  from Cons.prems obtain fs fe valid where
    r: "frameLoop p startRow n is
          (st\<lparr>frameStartBuffers' := (frameStartBuffers' st)[i := fs],
              frameEndBuffers' := (frameEndBuffers' st)[i := fe],
              validFrames' := (validFrames' st)[i := valid],
              calls := calls st
                @ (offsetCalls (windowFrames' st ! i) True (partitionOffset' st) n
                  @ offsetCalls (windowFrames' st ! i) False (partitionOffset' st) n)\<rparr>) = Inr st'"
    by (rule frameLoop_Cons)
  from Cons.IH [OF r] show ?case
    by simp
qed

lemma frameLoop_other:
  "frameLoop p startRow n is st = Inr st' \<Longrightarrow> w \<notin> set is \<Longrightarrow>
     frameStartBuffers' st' ! w = frameStartBuffers' st ! w
     \<and> frameEndBuffers' st' ! w = frameEndBuffers' st ! w
     \<and> validFrames' st' ! w = validFrames' st ! w"
proof (induction "is" arbitrary: st)
  case Nil
  then show ?case by simp
next
  case (Cons i "is")
  from Cons.prems(1) obtain fs fe valid where
    r: "frameLoop p startRow n is
          (st\<lparr>frameStartBuffers' := (frameStartBuffers' st)[i := fs],
              frameEndBuffers' := (frameEndBuffers' st)[i := fe],
              validFrames' := (validFrames' st)[i := valid],
              calls := calls st
                @ (offsetCalls (windowFrames' st ! i) True (partitionOffset' st) n
                  @ offsetCalls (windowFrames' st ! i) False (partitionOffset' st) n)\<rparr>) = Inr st'"
    by (rule frameLoop_Cons)
  from Cons.prems(2) have "w \<noteq> i" "w \<notin> set is" by auto
  with Cons.IH [OF r] show ?case by simp
qed

lemma frameLoop_nth:
  assumes "frameLoop p startRow n is st = Inr st'" and "w \<in> set is" and "distinct is"
    and "w < length (frameStartBuffers' st)" "w < length (frameEndBuffers' st)"
    and "w < length (validFrames' st)"
  shows "computeFrameBuffers p (partitionOffset' st) (windowFrames' st ! w) startRow n
           (peerStartBuffer' st) (peerEndBuffer' st)
           (frameStartBuffers' st ! w) (frameEndBuffers' st ! w)
         = (None, (frameStartBuffers' st' ! w, frameEndBuffers' st' ! w, validFrames' st' ! w),
            offsetCalls (windowFrames' st ! w) True (partitionOffset' st) n
               @ offsetCalls (windowFrames' st ! w) False (partitionOffset' st) n)"
  using assms
proof (induction "is" arbitrary: st)
  case Nil
  then show ?case by simp
next
  case (Cons i "is")
  from Cons.prems(1) obtain fs fe valid where
    c: "computeFrameBuffers p (partitionOffset' st) (windowFrames' st ! i) startRow n
           (peerStartBuffer' st) (peerEndBuffer' st)
           (frameStartBuffers' st ! i) (frameEndBuffers' st ! i)
         = (None, (fs, fe, valid),
            offsetCalls (windowFrames' st ! i) True (partitionOffset' st) n
               @ offsetCalls (windowFrames' st ! i) False (partitionOffset' st) n)" and
    r: "frameLoop p startRow n is
          (st\<lparr>frameStartBuffers' := (frameStartBuffers' st)[i := fs],
              frameEndBuffers' := (frameEndBuffers' st)[i := fe],
              validFrames' := (validFrames' st)[i := valid],
              calls := calls st
                @ (offsetCalls (windowFrames' st ! i) True (partitionOffset' st) n
                  @ offsetCalls (windowFrames' st ! i) False (partitionOffset' st) n)\<rparr>) = Inr st'"
    by (rule frameLoop_Cons)
  show ?case
  proof (cases "w = i")
    case True
    with Cons.prems(3) have "w \<notin> set is" by simp
    from frameLoop_other [OF r this] Cons.prems(4-6) True c show ?thesis
      by simp
  next
    case False
    with Cons.prems(2,3) have "w \<in> set is" "distinct is" by simp_all
    from Cons.IH [OF r this] Cons.prems(4-6) False show ?thesis
      by simp
  qed
qed

text \<open>The state in which \<open>computePeerAndFrameBuffers\<close> enters the loop over the functions.\<close>

lemma computePeerAndFrameBuffers_Inr:
  assumes "computePeerAndFrameBuffers st startRow endRow = Inr st'"
  obtains p ps pe peerStarts peerEnds where
    "currentPartition' st = Some p"
    "computePeerBuffers p startRow endRow (peerStartRow' st) (peerEndRow' st)
       = ((ps, pe), peerStarts, peerEnds)"
    "frameLoop p startRow (endRow - startRow) [0..<length (windowFunctions' st)]
       (st\<lparr>peerStartRow' := ps, peerEndRow' := pe,
           peerStartBuffer' := copy_n peerStarts (endRow - startRow) (peerStartBuffer' st),
           peerEndBuffer' := copy_n peerEnds (endRow - startRow) (peerEndBuffer' st),
           calls := calls st
             @ [ComputePeerBuffers startRow endRow (peerStartRow' st) (peerEndRow' st)]\<rparr>)
     = Inr st'"
  using assms
  by (auto simp: computePeerAndFrameBuffers_def Let_def split: option.splits prod.splits)

text \<open>
  C9. When the frame of function \<open>w\<close> has no offset argument on either side (neither
  bound is K PRECEDING or K FOLLOWING), \<open>computePeerAndFrameBuffers\<close> skips the validity
  repair for every slice: afterwards every row of the slice is marked valid in the
  selector of the function, and its frame buffers hold the bounds as
  \<open>updateFrameBounds\<close> resolved them from the peer buffers of the slice, without a call
  on the partition.
\<close>

theorem computePeerAndFrameBuffers_no_offset:
  assumes "computePeerAndFrameBuffers st startRow endRow = Inr st'"
    and "w < length (windowFunctions' st)"
    and "w < length (frameStartBuffers' st)" "w < length (frameEndBuffers' st)"
    and "w < length (validFrames' st)"
    and "startArg (windowFrames' st ! w) = None" and "endArg (windowFrames' st ! w) = None"
    and "currentPartition' st = Some p" and "n = endRow - startRow"
  shows "validFrames' st' ! w = replicate (nat n) True
       \<and> (\<forall>i<nat n. validFrames' st' ! w ! i)
       \<and> updateFrameBounds p (partitionOffset' st) (windowFrames' st ! w) True startRow n
            (peerStartBuffer' st') (peerEndBuffer' st') (frameStartBuffers' st ! w)
          = (None, frameStartBuffers' st' ! w, [])
       \<and> updateFrameBounds p (partitionOffset' st) (windowFrames' st ! w) False startRow n
            (peerStartBuffer' st') (peerEndBuffer' st') (frameEndBuffers' st ! w)
          = (None, frameEndBuffers' st' ! w, [])"
proof -
  from assms(1) obtain q ps pe peerStarts peerEnds where
    q: "currentPartition' st = Some q" and
    l: "frameLoop q startRow (endRow - startRow) [0..<length (windowFunctions' st)]
       (st\<lparr>peerStartRow' := ps, peerEndRow' := pe,
           peerStartBuffer' := copy_n peerStarts (endRow - startRow) (peerStartBuffer' st),
           peerEndBuffer' := copy_n peerEnds (endRow - startRow) (peerEndBuffer' st),
           calls := calls st
             @ [ComputePeerBuffers startRow endRow (peerStartRow' st) (peerEndRow' st)]\<rparr>)
     = Inr st'"
    by (rule computePeerAndFrameBuffers_Inr)
  let ?s = "st\<lparr>peerStartRow' := ps, peerEndRow' := pe,
           peerStartBuffer' := copy_n peerStarts (endRow - startRow) (peerStartBuffer' st),
           peerEndBuffer' := copy_n peerEnds (endRow - startRow) (peerEndBuffer' st),
           calls := calls st
             @ [ComputePeerBuffers startRow endRow (peerStartRow' st) (peerEndRow' st)]\<rparr>"
  from q assms(8) have qp: "q = p" by simp
  from frameLoop_frame [OF l] have
    pb: "peerStartBuffer' st' = peerStartBuffer' ?s" "peerEndBuffer' st' = peerEndBuffer' ?s"
    by blast+
  have oc: "offsetCalls (windowFrames' st ! w) b off m = []" for b off m
    using assms(6,7) by (simp add: offsetCalls_def)
  have "computeFrameBuffers q (partitionOffset' ?s) (windowFrames' ?s ! w) startRow
           (endRow - startRow) (peerStartBuffer' ?s) (peerEndBuffer' ?s)
           (frameStartBuffers' ?s ! w) (frameEndBuffers' ?s ! w)
         = (None, (frameStartBuffers' st' ! w, frameEndBuffers' st' ! w, validFrames' st' ! w),
            offsetCalls (windowFrames' ?s ! w) True (partitionOffset' ?s) (endRow - startRow)
               @ offsetCalls (windowFrames' ?s ! w) False (partitionOffset' ?s)
                   (endRow - startRow))"
    using assms(2-5) by (intro frameLoop_nth [OF l]) simp_all
  then have c: "computeFrameBuffers p (partitionOffset' st) (windowFrames' st ! w) startRow n
           (peerStartBuffer' st') (peerEndBuffer' st')
           (frameStartBuffers' st ! w) (frameEndBuffers' st ! w)
         = (None, (frameStartBuffers' st' ! w, frameEndBuffers' st' ! w, validFrames' st' ! w),
            [])"
    by (simp add: pb qp assms(9) oc)
  obtain e1 b1 c1 where
    u1: "updateFrameBounds p (partitionOffset' st) (windowFrames' st ! w) True startRow n
           (peerStartBuffer' st') (peerEndBuffer' st') (frameStartBuffers' st ! w)
         = (e1, b1, c1)"
    by (metis prod_cases3)
  obtain e2 b2 c2 where
    u2: "updateFrameBounds p (partitionOffset' st) (windowFrames' st ! w) False startRow n
           (peerStartBuffer' st') (peerEndBuffer' st') (frameEndBuffers' st ! w)
         = (e2, b2, c2)"
    by (metis prod_cases3)
  from updateFrameBounds_calls [of p "partitionOffset' st" "windowFrames' st ! w" True startRow
      n "peerStartBuffer' st'" "peerEndBuffer' st'" "frameStartBuffers' st ! w"] u1 oc
  have c1: "c1 = []" by simp
  from updateFrameBounds_calls [of p "partitionOffset' st" "windowFrames' st ! w" False startRow
      n "peerStartBuffer' st'" "peerEndBuffer' st'" "frameEndBuffers' st ! w"] u2 oc
  have c2: "c2 = []" by simp
  from c u1 u2 assms(6,7) have "e1 = None \<and> b1 = frameStartBuffers' st' ! w
      \<and> e2 = None \<and> b2 = frameEndBuffers' st' ! w
      \<and> validFrames' st' ! w = replicate (nat n) True"
    by (auto simp: computeFrameBuffers_def Let_def split: option.splits)
  with u1 u2 c1 c2 show ?thesis by simp
qed

text \<open>
  The first two rows of a 3-row partition, for one function with the frame ROWS BETWEEN
  UNBOUNDED PRECEDING AND CURRENT ROW and room for 4 rows per output.
\<close>

theorem computePeerAndFrameBuffers_no_offset_witness:
  "\<exists>st'. computePeerAndFrameBuffers
       (callResetPartition (newWindow [''sum''] [rowsUnboundedPrecedingCurrentRow]
          [distinctKeysPartition 3 (\<lambda>c. [])] 4)) 0 2 = Inr st'
     \<and> validFrames' st' ! 0 = [True, True]
     \<and> take 2 (frameStartBuffers' st' ! 0) = [0, 0]
     \<and> take 2 (frameEndBuffers' st' ! 0) = [0, 1]"
proof -
  let ?st = "callResetPartition (newWindow [''sum''] [rowsUnboundedPrecedingCurrentRow]
          [distinctKeysPartition 3 (\<lambda>c. [])] 4)"
  have st: "currentPartition' ?st = Some (distinctKeysPartition 3 (\<lambda>c. []))"
    "windowFunctions' ?st = [''sum'']" "windowFrames' ?st = [rowsUnboundedPrecedingCurrentRow]"
    "frameStartBuffers' ?st = [[0, 0, 0, 0]]" "frameEndBuffers' ?st = [[0, 0, 0, 0]]"
    "validFrames' ?st = [[True, True, True, True]]" "partitionOffset' ?st = 0"
    by (simp_all add: callResetPartition_def newWindow_def numeral_eq_Suc)
  obtain st' where r: "computePeerAndFrameBuffers ?st 0 2 = Inr st'"
    and b: "take 2 (frameStartBuffers' st' ! 0) = [0, 0]"
      "take 2 (frameEndBuffers' st' ! 0) = [0, 1]"
    by (simp add: computePeerAndFrameBuffers_def callResetPartition_def newWindow_def
        distinctKeysPartition_def rowsUnboundedPrecedingCurrentRow_def computeFrameBuffers_def
        updateFrameBounds_def fill_n_def copy_n_def iota_def upt_rec int32_t_def
        numeral_eq_Suc Let_def)
  from computePeerAndFrameBuffers_no_offset [OF r, of 0 _ 2] st
  have "validFrames' st' ! 0 = replicate (nat 2) True"
    by (simp add: rowsUnboundedPrecedingCurrentRow_def)
  then have "validFrames' st' ! 0 = [True, True]"
    by (simp add: numeral_eq_Suc)
  with r b show ?thesis by blast
qed

section \<open>RANGE frames with a K bound\<close>

text \<open>
  C1 as stated fails: \<open>createWindowFrame\<close> builds the frame RANGE BETWEEN 1 PRECEDING AND
  CURRENT ROW without any error; the error comes from the first \<open>getOutput\<close> call that
  has rows to process, after the input columns of the slice have been extracted and its
  peer buffers computed.
\<close>

theorem createWindowFrame_range_k_counterexample:
  "createWindowFrame rangeOnePrecedingCurrentRow
     = Inr \<lparr>frameType = kRange, frameStartType = kPreceding, frameEndType = kCurrentRow,
            startArg = Some \<lparr>index = kConstantChannel, valueKind = None,
                             constantValue = Some 1\<rparr>,
            endArg = None\<rparr>
   \<and> (\<exists>s. getOutput (newWindow [''sum'']
             [\<lparr>frameType = kRange, frameStartType = kPreceding, frameEndType = kCurrentRow,
               startArg = Some \<lparr>index = kConstantChannel, valueKind = None,
                                constantValue = Some 1\<rparr>,
               endArg = None\<rparr>]
             [distinctKeysPartition 3 (\<lambda>c. [])] 4)
           = Inl (VeloxNotImplemented KPrecedingOnlyRows, s)
         \<and> calls s = [ResetPartition 0 (distinctKeysPartition 3 (\<lambda>c. [])),
                       ExtractColumn 0 0 3 0, ComputePeerBuffers 0 3 0 0])"
  by (simp add: createWindowFrame_def rangeOnePrecedingCurrentRow_def
      createFrameChannelArg_def getOutput_def newWindow_def callResetPartition_def
      distinctKeysPartition_def callApplyForPartitionRows_def getInputColumns_def
      computePeerAndFrameBuffers_def computeFrameBuffers_def updateFrameBounds_def
      Let_def)

lemma createFrameChannelArg_not_nyi:
  "createFrameChannelArg v \<noteq> Inl (VeloxNotImplemented m)"
  by (auto simp: createFrameChannelArg_def split: option.splits TypedExpr.splits)

lemma createWindowFrame_range:
  assumes "type frame = kRange"
  shows "createWindowFrame frame \<noteq> Inl (VeloxNotImplemented m)"
    and "createWindowFrame frame = Inr frm \<Longrightarrow>
           frameType frm = kRange \<and> frameStartType frm = startType frame
           \<and> frameEndType frm = endType frame"
    and "createFrameChannelArg (startValue frame) = Inr s \<Longrightarrow>
         createFrameChannelArg (endValue frame) = Inr e \<Longrightarrow>
           createWindowFrame frame
             = Inr \<lparr>frameType = kRange, frameStartType = startType frame,
                    frameEndType = endType frame, startArg = s, endArg = e\<rparr>"
  using assms createFrameChannelArg_not_nyi [of "startValue frame" m]
    createFrameChannelArg_not_nyi [of "endValue frame" m]
  by (auto simp: createWindowFrame_def split: sum.splits)

lemma updateFrameBounds_range_k:
  assumes "frameType frm = kRange"
    and "isKBound (if isStartBound then frameStartType frm else frameEndType frm)"
  shows "updateFrameBounds p off frm isStartBound startRow n ps pe buf
     = (Some (VeloxNotImplemented
               (if (if isStartBound then frameStartType frm else frameEndType frm) = kPreceding
                then KPrecedingOnlyRows else KFollowingOnlyRows)), buf, [])"
  using assms by (auto simp: updateFrameBounds_def isKBound_def Let_def)

lemma computeFrameBuffers_range_k:
  assumes "frameType frm = kRange"
    and "isKBound (frameStartType frm) \<or> isKBound (frameEndType frm)"
  shows "fst (computeFrameBuffers p off frm startRow n ps pe fs fe) \<noteq> None"
proof (cases "isKBound (frameStartType frm)")
  case True
  with updateFrameBounds_range_k [OF assms(1), of True p off startRow n ps pe fs]
  show ?thesis by (simp add: computeFrameBuffers_def Let_def)
next
  case False
  with assms(2) have "isKBound (frameEndType frm)" by simp
  with updateFrameBounds_range_k [OF assms(1), of False p off startRow n ps pe fe]
  show ?thesis
    by (simp add: computeFrameBuffers_def Let_def split: prod.splits option.splits)
qed

text \<open>
  C1, amended. For every plan frame whose mode is RANGE and whose start or end bound is
  K PRECEDING or K FOLLOWING: \<open>createWindowFrame\<close> never throws the not-implemented
  error, and it builds the operator's frame whenever the offset expressions are
  columns or non-null, non-negative constants; the frame it builds is rejected later,
  during frame bound evaluation: \<open>updateFrameBounds\<close> on a K side throws the
  not-implemented error, writes nothing and makes no call, so
  \<open>computePeerAndFrameBuffers\<close> throws for every slice of an operator that has the
  frame, and no slice is processed.
\<close>

theorem createWindowFrame_range_k:
  assumes "type frame = kRange"
    and "isKBound (startType frame) \<or> isKBound (endType frame)"
  shows "(\<forall>m. createWindowFrame frame \<noteq> Inl (VeloxNotImplemented m))
       \<and> (\<forall>s e. createFrameChannelArg (startValue frame) = Inr s
              \<and> createFrameChannelArg (endValue frame) = Inr e \<longrightarrow>
            (\<exists>frm. createWindowFrame frame = Inr frm))
       \<and> (\<forall>frm. createWindowFrame frame = Inr frm \<longrightarrow>
            (\<forall>isStartBound p off startRow n ps pe buf.
               isKBound (if isStartBound then startType frame else endType frame) \<longrightarrow>
               updateFrameBounds p off frm isStartBound startRow n ps pe buf
                 = (Some (VeloxNotImplemented
                      (if (if isStartBound then startType frame else endType frame)
                            = kPreceding
                       then KPrecedingOnlyRows else KFollowingOnlyRows)), buf, []))
            \<and> (\<forall>st w startRow endRow.
                 w < length (windowFunctions' st) \<and> w < length (frameStartBuffers' st)
                 \<and> w < length (frameEndBuffers' st) \<and> w < length (validFrames' st)
                 \<and> windowFrames' st ! w = frm \<longrightarrow>
                 (\<exists>ex s. computePeerAndFrameBuffers st startRow endRow = Inl (ex, s))))"
proof (intro conjI allI impI)
  fix m
  show "createWindowFrame frame \<noteq> Inl (VeloxNotImplemented m)"
    by (rule createWindowFrame_range(1) [OF assms(1)])
next
  fix s e
  assume "createFrameChannelArg (startValue frame) = Inr s
            \<and> createFrameChannelArg (endValue frame) = Inr e"
  then show "\<exists>frm. createWindowFrame frame = Inr frm"
    using createWindowFrame_range(3) [OF assms(1), of s e] by blast
next
  fix frm isStartBound p off startRow n ps pe buf
  assume frm: "createWindowFrame frame = Inr frm"
    and k: "isKBound (if isStartBound then startType frame else endType frame)"
  note f = createWindowFrame_range(2) [OF assms(1) frm]
  from f have eq: "(if isStartBound then frameStartType frm else frameEndType frm)
      = (if isStartBound then startType frame else endType frame)"
    by simp
  from f have "frameType frm = kRange" by simp
  from updateFrameBounds_range_k [OF this, of isStartBound p off startRow n ps pe buf] k
  show "updateFrameBounds p off frm isStartBound startRow n ps pe buf
           = (Some (VeloxNotImplemented
                (if (if isStartBound then startType frame else endType frame) = kPreceding
                 then KPrecedingOnlyRows else KFollowingOnlyRows)), buf, [])"
    unfolding eq by simp
next
  fix frm and st :: Window and w startRow endRow
  assume frm: "createWindowFrame frame = Inr frm"
    and w: "w < length (windowFunctions' st) \<and> w < length (frameStartBuffers' st)
              \<and> w < length (frameEndBuffers' st) \<and> w < length (validFrames' st)
              \<and> windowFrames' st ! w = frm"
  note f = createWindowFrame_range(2) [OF assms(1) frm]
  show "\<exists>ex s. computePeerAndFrameBuffers st startRow endRow = Inl (ex, s)"
  proof (cases "computePeerAndFrameBuffers st startRow endRow")
    case (Inl x)
    then show ?thesis by (cases x) simp
  next
    case (Inr st')
    then obtain q ps pe peerStarts peerEnds where
      l: "frameLoop q startRow (endRow - startRow) [0..<length (windowFunctions' st)]
         (st\<lparr>peerStartRow' := ps, peerEndRow' := pe,
             peerStartBuffer' := copy_n peerStarts (endRow - startRow) (peerStartBuffer' st),
             peerEndBuffer' := copy_n peerEnds (endRow - startRow) (peerEndBuffer' st),
             calls := calls st
               @ [ComputePeerBuffers startRow endRow (peerStartRow' st) (peerEndRow' st)]\<rparr>)
       = Inr st'"
      by (rule computePeerAndFrameBuffers_Inr)
    let ?s = "st\<lparr>peerStartRow' := ps, peerEndRow' := pe,
             peerStartBuffer' := copy_n peerStarts (endRow - startRow) (peerStartBuffer' st),
             peerEndBuffer' := copy_n peerEnds (endRow - startRow) (peerEndBuffer' st),
             calls := calls st
               @ [ComputePeerBuffers startRow endRow (peerStartRow' st) (peerEndRow' st)]\<rparr>"
    from w have "w \<in> set [0..<length (windowFunctions' st)]" by simp
    from frameLoop_nth [OF l this] w have
      "fst (computeFrameBuffers q (partitionOffset' ?s) (windowFrames' ?s ! w) startRow
              (endRow - startRow) (peerStartBuffer' ?s) (peerEndBuffer' ?s)
              (frameStartBuffers' ?s ! w) (frameEndBuffers' ?s ! w)) = None"
      by simp
    moreover from w f assms(2) have "frameType (windowFrames' ?s ! w) = kRange"
      "isKBound (frameStartType (windowFrames' ?s ! w))
         \<or> isKBound (frameEndType (windowFrames' ?s ! w))"
      by simp_all
    then have "fst (computeFrameBuffers q (partitionOffset' ?s) (windowFrames' ?s ! w) startRow
              (endRow - startRow) (peerStartBuffer' ?s) (peerEndBuffer' ?s)
              (frameStartBuffers' ?s ! w) (frameEndBuffers' ?s ! w)) \<noteq> None"
      by (rule computeFrameBuffers_range_k)
    ultimately show ?thesis by simp
  qed
qed

text \<open>
  RANGE BETWEEN 1 PRECEDING AND CURRENT ROW: the frame is built, and resolving its start
  side for a slice throws.
\<close>

theorem createWindowFrame_range_k_witness:
  "(\<exists>frm. createWindowFrame rangeOnePrecedingCurrentRow = Inr frm
      \<and> updateFrameBounds (distinctKeysPartition 3 (\<lambda>c. [])) 0 frm True 0 3
            [0, 1, 2] [0, 1, 2] [7, 7, 7]
          = (Some (VeloxNotImplemented KPrecedingOnlyRows), [7, 7, 7], []))
   \<and> type rangeOnePrecedingCurrentRow = kRange
   \<and> isKBound (startType rangeOnePrecedingCurrentRow)"
proof -
  have t: "type rangeOnePrecedingCurrentRow = kRange"
    and k: "isKBound (startType rangeOnePrecedingCurrentRow)"
    by (simp_all add: rangeOnePrecedingCurrentRow_def isKBound_def)
  have a: "createFrameChannelArg (startValue rangeOnePrecedingCurrentRow)
      = Inr (Some \<lparr>index = kConstantChannel, valueKind = None, constantValue = Some 1\<rparr>)"
    "createFrameChannelArg (endValue rangeOnePrecedingCurrentRow) = Inr None"
    by (simp_all add: rangeOnePrecedingCurrentRow_def createFrameChannelArg_def)
  note th = createWindowFrame_range_k [OF t disjI1 [OF k]]
  from th a obtain frm where frm: "createWindowFrame rangeOnePrecedingCurrentRow = Inr frm"
    by blast
  from th frm k have "updateFrameBounds (distinctKeysPartition 3 (\<lambda>c. [])) 0 frm True 0 3
            [0, 1, 2] [0, 1, 2] [7, 7, 7]
          = (Some (VeloxNotImplemented
               (if (if True then startType rangeOnePrecedingCurrentRow
                    else endType rangeOnePrecedingCurrentRow) = kPreceding
                then KPrecedingOnlyRows else KFollowingOnlyRows)), [7, 7, 7], [])"
    by simp
  then have "updateFrameBounds (distinctKeysPartition 3 (\<lambda>c. [])) 0 frm True 0 3
            [0, 1, 2] [0, 1, 2] [7, 7, 7]
          = (Some (VeloxNotImplemented KPrecedingOnlyRows), [7, 7, 7], [])"
    by (simp add: rangeOnePrecedingCurrentRow_def)
  with frm t k show ?thesis by blast
qed

section \<open>Slices\<close>

lemma computePeerAndFrameBuffers_frame:
  assumes "computePeerAndFrameBuffers st startRow endRow = Inr st'"
  shows "\<exists>p. currentPartition' st = Some p
       \<and> (peerStartRow' st', peerEndRow' st')
           = fst (computePeerBuffers p startRow endRow (peerStartRow' st) (peerEndRow' st))
       \<and> peerStartBuffer' st'
           = copy_n (fst (snd (computePeerBuffers p startRow endRow (peerStartRow' st)
                (peerEndRow' st)))) (endRow - startRow) (peerStartBuffer' st)
       \<and> peerEndBuffer' st'
           = copy_n (snd (snd (computePeerBuffers p startRow endRow (peerStartRow' st)
                (peerEndRow' st)))) (endRow - startRow) (peerEndBuffer' st)"
    and "numInputColumns' st' = numInputColumns' st"
    and "windowBuild' st' = windowBuild' st"
    and "currentPartition' st' = currentPartition' st"
    and "windowFunctions' st' = windowFunctions' st"
    and "windowFrames' st' = windowFrames' st"
    and "numRows' st' = numRows' st"
    and "numProcessedRows' st' = numProcessedRows' st"
    and "numRowsPerOutput' st' = numRowsPerOutput' st"
    and "partitionOffset' st' = partitionOffset' st"
    and "calls st' = calls st
           @ [ComputePeerBuffers startRow endRow (peerStartRow' st) (peerEndRow' st)]
           @ frameCalls st (endRow - startRow)"
    and "length (frameStartBuffers' st') = length (frameStartBuffers' st)"
    and "length (frameEndBuffers' st') = length (frameEndBuffers' st)"
    and "length (validFrames' st') = length (validFrames' st)"
proof -
  from assms obtain p ps pe peerStarts peerEnds where
    p: "currentPartition' st = Some p" and
    c: "computePeerBuffers p startRow endRow (peerStartRow' st) (peerEndRow' st)
       = ((ps, pe), peerStarts, peerEnds)" and
    l: "frameLoop p startRow (endRow - startRow) [0..<length (windowFunctions' st)]
       (st\<lparr>peerStartRow' := ps, peerEndRow' := pe,
           peerStartBuffer' := copy_n peerStarts (endRow - startRow) (peerStartBuffer' st),
           peerEndBuffer' := copy_n peerEnds (endRow - startRow) (peerEndBuffer' st),
           calls := calls st
             @ [ComputePeerBuffers startRow endRow (peerStartRow' st) (peerEndRow' st)]\<rparr>)
     = Inr st'"
    by (rule computePeerAndFrameBuffers_Inr)
  note f = frameLoop_frame [OF l] frameLoop_windowBuild [OF l]
  from f p c show "\<exists>p. currentPartition' st = Some p
       \<and> (peerStartRow' st', peerEndRow' st')
           = fst (computePeerBuffers p startRow endRow (peerStartRow' st) (peerEndRow' st))
       \<and> peerStartBuffer' st'
           = copy_n (fst (snd (computePeerBuffers p startRow endRow (peerStartRow' st)
                (peerEndRow' st)))) (endRow - startRow) (peerStartBuffer' st)
       \<and> peerEndBuffer' st'
           = copy_n (snd (snd (computePeerBuffers p startRow endRow (peerStartRow' st)
                (peerEndRow' st)))) (endRow - startRow) (peerEndBuffer' st)"
    by simp
  from f show "numInputColumns' st' = numInputColumns' st"
    and "windowBuild' st' = windowBuild' st"
    and "currentPartition' st' = currentPartition' st"
    and "windowFunctions' st' = windowFunctions' st"
    and "windowFrames' st' = windowFrames' st"
    and "numRows' st' = numRows' st"
    and "numProcessedRows' st' = numProcessedRows' st"
    and "numRowsPerOutput' st' = numRowsPerOutput' st"
    and "partitionOffset' st' = partitionOffset' st"
    and "calls st' = calls st
           @ [ComputePeerBuffers startRow endRow (peerStartRow' st) (peerEndRow' st)]
           @ frameCalls st (endRow - startRow)"
    and "length (frameStartBuffers' st') = length (frameStartBuffers' st)"
    and "length (frameEndBuffers' st') = length (frameEndBuffers' st)"
    and "length (validFrames' st') = length (validFrames' st)"
    by (simp_all add: frameCalls_def)
qed

lemma callApplyForPartitionRows_Inr:
  assumes "callApplyForPartitionRows st startRow endRow resultOffset = Inr st'"
  shows "\<exists>p. currentPartition' st = Some p
       \<and> (peerStartRow' st', peerEndRow' st')
           = fst (computePeerBuffers p startRow endRow (peerStartRow' st) (peerEndRow' st))"
    and "numInputColumns' st' = numInputColumns' st"
    and "windowBuild' st' = windowBuild' st"
    and "currentPartition' st' = currentPartition' st"
    and "windowFunctions' st' = windowFunctions' st"
    and "windowFrames' st' = windowFrames' st"
    and "numRows' st' = numRows' st"
    and "numProcessedRows' st' = numProcessedRows' st + (endRow - startRow)"
    and "numRowsPerOutput' st' = numRowsPerOutput' st"
    and "partitionOffset' st' = partitionOffset' st + (endRow - startRow)"
    and "calls st' = calls st @ extractCalls st (endRow - startRow) resultOffset
           @ [ComputePeerBuffers startRow endRow (peerStartRow' st) (peerEndRow' st)]
           @ frameCalls st (endRow - startRow)
           @ applyCalls st' (endRow - startRow) resultOffset"
    and "length (frameStartBuffers' st') = length (frameStartBuffers' st)"
    and "length (frameEndBuffers' st') = length (frameEndBuffers' st)"
    and "length (validFrames' st') = length (validFrames' st)"
proof -
  from assms obtain st1 st2 where
    g: "getInputColumns st startRow endRow resultOffset = Inr st1" and
    c: "computePeerAndFrameBuffers st1 startRow endRow = Inr st2" and
    s: "st' = st2\<lparr>calls := calls st2 @ applyCalls st2 (endRow - startRow) resultOffset,
                   numProcessedRows' := numProcessedRows' st2 + (endRow - startRow),
                   partitionOffset' := partitionOffset' st2 + (endRow - startRow)\<rparr>"
    by (auto simp: callApplyForPartitionRows_def Let_def split: sum.splits)
  note f = computePeerAndFrameBuffers_frame [OF c]
  from f(1) obtain p where p: "currentPartition' st1 = Some p" by blast
  from g p have st1: "st1 = st\<lparr>calls := calls st
      @ extractCalls st (endRow - startRow) resultOffset\<rparr>"
    and p': "currentPartition' st = Some p"
    by (auto simp: getInputColumns_def extractCalls_def Let_def split: option.splits if_splits)
  have a: "applyCalls st' (endRow - startRow) resultOffset
      = applyCalls st2 (endRow - startRow) resultOffset"
    by (simp add: s applyCalls_def)
  have fc: "frameCalls st1 (endRow - startRow) = frameCalls st (endRow - startRow)"
    by (simp add: st1 frameCalls_def)
  from f(1) p p' st1 s show "\<exists>p. currentPartition' st = Some p
       \<and> (peerStartRow' st', peerEndRow' st')
           = fst (computePeerBuffers p startRow endRow (peerStartRow' st) (peerEndRow' st))"
    by simp
  from f(2-) st1 s a fc show "numInputColumns' st' = numInputColumns' st"
    and "windowBuild' st' = windowBuild' st"
    and "currentPartition' st' = currentPartition' st"
    and "windowFunctions' st' = windowFunctions' st"
    and "windowFrames' st' = windowFrames' st"
    and "numRows' st' = numRows' st"
    and "numProcessedRows' st' = numProcessedRows' st + (endRow - startRow)"
    and "numRowsPerOutput' st' = numRowsPerOutput' st"
    and "partitionOffset' st' = partitionOffset' st + (endRow - startRow)"
    and "calls st' = calls st @ extractCalls st (endRow - startRow) resultOffset
           @ [ComputePeerBuffers startRow endRow (peerStartRow' st) (peerEndRow' st)]
           @ frameCalls st (endRow - startRow)
           @ applyCalls st' (endRow - startRow) resultOffset"
    and "length (frameStartBuffers' st') = length (frameStartBuffers' st)"
    and "length (frameEndBuffers' st') = length (frameEndBuffers' st)"
    and "length (validFrames' st') = length (validFrames' st)"
    by simp_all
qed

lemma callResetPartition_simps:
  "partitionOffset' (callResetPartition st) = 0"
  "peerStartRow' (callResetPartition st) = 0"
  "peerEndRow' (callResetPartition st) = 0"
  "windowFunctions' (callResetPartition st) = windowFunctions' st"
  "windowFrames' (callResetPartition st) = windowFrames' st"
  "numInputColumns' (callResetPartition st) = numInputColumns' st"
  "numRows' (callResetPartition st) = numRows' st"
  "numProcessedRows' (callResetPartition st) = numProcessedRows' st"
  "numRowsPerOutput' (callResetPartition st) = numRowsPerOutput' st"
  "currentPartition' (callResetPartition st)
     = (case windowBuild' st of [] \<Rightarrow> None | p # rest \<Rightarrow> Some p)"
  "windowBuild' (callResetPartition st) = tl (windowBuild' st)"
  "calls (callResetPartition st)
     = calls st @ (case windowBuild' st of [] \<Rightarrow> []
         | p # rest \<Rightarrow> map (\<lambda>i. ResetPartition i p) [0..<length (windowFunctions' st)])"
  "length (frameStartBuffers' (callResetPartition st)) = length (frameStartBuffers' st)"
  "length (frameEndBuffers' (callResetPartition st)) = length (frameEndBuffers' st)"
  "length (validFrames' (callResetPartition st)) = length (validFrames' st)"
  by (simp_all add: callResetPartition_def Let_def split: list.splits)

section \<open>The output loop\<close>

lemmas [simp del] = callApplyLoop.simps

text \<open>The three ways through one round of the loop in \<open>callApplyLoop\<close>.\<close>

lemma callApplyLoop_done:
  "numOutputRowsLeft \<le> 0 \<Longrightarrow> callApplyLoop st numOutputRowsLeft resultIndex = Inr st"
  by (subst callApplyLoop.simps) simp

lemma callApplyLoop_partial:
  assumes "0 < numOutputRowsLeft" and "currentPartition' st = Some p"
    and "numOutputRowsLeft < numRows p - partitionOffset' st"
  shows "callApplyLoop st numOutputRowsLeft resultIndex
     = callApplyForPartitionRows st (partitionOffset' st)
         (partitionOffset' st + numOutputRowsLeft) resultIndex"
  using assms by (subst callApplyLoop.simps) (simp add: Let_def)

lemma callApplyLoop_full:
  assumes "0 < numOutputRowsLeft" and "currentPartition' st = Some p"
    and "rowsForCurrentPartition = numRows p - partitionOffset' st"
    and "rowsForCurrentPartition \<le> numOutputRowsLeft"
  shows "callApplyLoop st numOutputRowsLeft resultIndex
     = (case callApplyForPartitionRows st (partitionOffset' st)
               (partitionOffset' st + rowsForCurrentPartition) resultIndex of
          Inl e \<Rightarrow> Inl e
        | Inr st1 \<Rightarrow>
            if currentPartition' (callResetPartition st1) = None
            then Inr (callResetPartition st1)
            else callApplyLoop (callResetPartition st1)
                   (numOutputRowsLeft - rowsForCurrentPartition)
                   (resultIndex + rowsForCurrentPartition))"
  using assms by (subst callApplyLoop.simps) (simp add: Let_def split: sum.splits)

lemma sum_list_numRows_nonneg:
  "\<forall>p\<in>set ps. 0 < numRows p \<Longrightarrow> 0 \<le> sum_list (map numRows ps)"
  by (induction ps) auto

lemma callApplyLoop_rows:
  assumes "callApplyLoop st numOutputRowsLeft resultIndex = Inr st'"
    and "\<forall>p\<in>set (windowBuild' st). 0 < numRows p"
    and "currentPartition' st = Some p"
    and "0 \<le> partitionOffset' st" "partitionOffset' st < numRows p"
    and "0 \<le> numOutputRowsLeft" "numOutputRowsLeft \<le> remainingRows st"
  shows "numProcessedRows' st' = numProcessedRows' st + numOutputRowsLeft
       \<and> remainingRows st' = remainingRows st - numOutputRowsLeft
       \<and> (\<forall>p\<in>set (windowBuild' st'). 0 < numRows p)
       \<and> (\<forall>q. currentPartition' st' = Some q \<longrightarrow>
             0 \<le> partitionOffset' st' \<and> partitionOffset' st' < numRows q)
       \<and> numRows' st' = numRows' st
       \<and> numRowsPerOutput' st' = numRowsPerOutput' st"
  using assms
proof (induction st numOutputRowsLeft resultIndex arbitrary: p rule: callApplyLoop.induct)
  case (1 st left ri)
  let ?off = "partitionOffset' st"
  let ?rows = "numRows p - ?off"
  show ?case
  proof (cases "0 < left")
    case False
    with "1.prems" show ?thesis by (simp add: callApplyLoop_done)
  next
    case pos: True
    show ?thesis
    proof (cases "?rows \<le> left")
      case False
      with "1.prems"(1,3) pos have
        r: "callApplyForPartitionRows st ?off (?off + left) ri = Inr st'"
        by (simp add: callApplyLoop_partial)
      note f = callApplyForPartitionRows_Inr [OF r]
      from f "1.prems" False pos show ?thesis
        by (simp add: remainingRows_def)
    next
      case True
      from "1.prems"(1,3) pos True obtain st1 where
        r: "callApplyForPartitionRows st ?off (?off + ?rows) ri = Inr st1" and
        l: "(if currentPartition' (callResetPartition st1) = None
             then Inr (callResetPartition st1)
             else callApplyLoop (callResetPartition st1) (left - ?rows) (ri + ?rows)) = Inr st'"
        by (auto simp: callApplyLoop_full [OF pos "1.prems"(3) refl True] split: sum.splits)
      note f = callApplyForPartitionRows_Inr [OF r]
      let ?st2 = "callResetPartition st1"
      have nn: "0 \<le> sum_list (map numRows (windowBuild' st))"
        using "1.prems"(2) by (rule sum_list_numRows_nonneg)
      show ?thesis
      proof (cases "windowBuild' st")
        case Nil
        with f have "currentPartition' ?st2 = None"
          by (simp add: callResetPartition_simps)
        with l have s: "st' = ?st2" by simp
        from Nil "1.prems"(3,7) True have "left = ?rows"
          by (simp add: remainingRows_def)
        with s f Nil "1.prems" show ?thesis
          by (simp add: callResetPartition_simps remainingRows_def)
      next
        case (Cons q rest)
        with f have c2: "currentPartition' ?st2 = Some q"
          and b2: "windowBuild' ?st2 = rest"
          by (simp_all add: callResetPartition_simps)
        from c2 l have l': "callApplyLoop ?st2 (left - ?rows) (ri + ?rows) = Inr st'"
          by simp
        from Cons "1.prems"(2) have q: "0 < numRows q" "\<forall>p\<in>set rest. 0 < numRows p"
          by simp_all
        have rem2: "remainingRows ?st2 = remainingRows st - ?rows"
          using c2 b2 Cons "1.prems"(3)
          by (simp add: remainingRows_def callResetPartition_simps)
        have ih: "numProcessedRows' st' = numProcessedRows' ?st2 + (left - ?rows)
           \<and> remainingRows st' = remainingRows ?st2 - (left - ?rows)
           \<and> (\<forall>p\<in>set (windowBuild' st'). 0 < numRows p)
           \<and> (\<forall>q. currentPartition' st' = Some q \<longrightarrow>
                 0 \<le> partitionOffset' st' \<and> partitionOffset' st' < numRows q)
           \<and> numRows' st' = numRows' ?st2
           \<and> numRowsPerOutput' st' = numRowsPerOutput' ?st2"
        proof (rule "1.IH" [OF pos "1.prems"(3) refl True r refl _ l'])
          show "currentPartition' ?st2 \<noteq> None" using c2 by simp
          show "\<forall>p\<in>set (windowBuild' ?st2). 0 < numRows p" using b2 q by simp
          show "currentPartition' ?st2 = Some q" by (rule c2)
          show "0 \<le> partitionOffset' ?st2" by (simp add: callResetPartition_simps)
          show "partitionOffset' ?st2 < numRows q"
            using q by (simp add: callResetPartition_simps)
          show "0 \<le> left - ?rows" using True by simp
          show "left - ?rows \<le> remainingRows ?st2"
            using rem2 "1.prems"(7) by simp
        qed
        with f rem2 show ?thesis
          by (simp add: callResetPartition_simps)
      qed
    qed
  qed
qed

lemma getOutput_rows:
  assumes "driverInv st" and "getOutput st = Inr (st', out)"
  shows "out = (if numRows' st - numProcessedRows' st = 0 then None
                else Some (min (numRowsPerOutput' st) (numRows' st - numProcessedRows' st)))"
    and "numProcessedRows' st'
           = numProcessedRows' st + (case out of None \<Rightarrow> 0 | Some r \<Rightarrow> r)"
    and "numRows' st' = numRows' st" and "numRowsPerOutput' st' = numRowsPerOutput' st"
    and "driverInv st'"
proof -
  let ?left = "numRows' st - numProcessedRows' st"
  let ?B = "numRowsPerOutput' st"
  from assms(1) have inv: "\<forall>p\<in>set (windowBuild' st). 0 < numRows p"
    "\<And>p. currentPartition' st = Some p \<Longrightarrow>
       0 \<le> partitionOffset' st \<and> partitionOffset' st < numRows p"
    "0 \<le> numProcessedRows' st" "remainingRows st = ?left" "0 < ?B"
    by (auto simp: driverInv_def)
  have nn: "0 \<le> sum_list (map numRows (windowBuild' st))"
    using inv(1) by (rule sum_list_numRows_nonneg)
  have left0: "0 \<le> ?left"
    using inv(2,4) nn by (cases "currentPartition' st") (auto simp: remainingRows_def)
  have all: "out = (if ?left = 0 then None else Some (min ?B ?left))
     \<and> numProcessedRows' st' = numProcessedRows' st + (case out of None \<Rightarrow> 0 | Some r \<Rightarrow> r)
     \<and> numRows' st' = numRows' st \<and> numRowsPerOutput' st' = ?B \<and> driverInv st'"
  proof (cases "?left = 0")
    case True
    with assms(2) have "st' = st" "out = None"
      by (auto simp: getOutput_def Let_def split: if_splits)
    with True assms(1) show ?thesis by simp
  next
    case False
    with left0 have lpos: "0 < ?left" by simp
    with inv(3) have n0: "numRows' st \<noteq> 0" by linarith
    let ?st1 = "if currentPartition' st = None then callResetPartition st else st"
    have "\<exists>q. currentPartition' ?st1 = Some q \<and> 0 \<le> partitionOffset' ?st1
        \<and> partitionOffset' ?st1 < numRows q
        \<and> (\<forall>p\<in>set (windowBuild' ?st1). 0 < numRows p)
        \<and> remainingRows ?st1 = ?left
        \<and> numProcessedRows' ?st1 = numProcessedRows' st
        \<and> numRows' ?st1 = numRows' st \<and> numRowsPerOutput' ?st1 = ?B"
    proof (cases "currentPartition' st")
      case (Some q)
      with inv show ?thesis by simp
    next
      case None
      with inv(4) lpos have "windowBuild' st \<noteq> []"
        by (auto simp: remainingRows_def)
      then obtain q rest where b: "windowBuild' st = q # rest"
        by (cases "windowBuild' st") auto
      with None inv show ?thesis
        by (simp add: callResetPartition_simps remainingRows_def)
    qed
    then obtain q where q: "currentPartition' ?st1 = Some q" "0 \<le> partitionOffset' ?st1"
      "partitionOffset' ?st1 < numRows q" "\<forall>p\<in>set (windowBuild' ?st1). 0 < numRows p"
      "remainingRows ?st1 = ?left" "numProcessedRows' ?st1 = numProcessedRows' st"
      "numRows' ?st1 = numRows' st" "numRowsPerOutput' ?st1 = ?B"
      by blast
    from assms(2) n0 False q(1,8) have l: "callApplyLoop ?st1 (min ?B ?left) 0 = Inr st'"
      and o: "out = Some (min ?B ?left)"
      by (auto simp: getOutput_def Let_def split: sum.splits if_splits)
    have "0 \<le> min ?B ?left" "min ?B ?left \<le> remainingRows ?st1"
      using inv(5) lpos q(5) by simp_all
    from callApplyLoop_rows [OF l q(4) q(1) q(2) q(3) this] q(5-8) inv(3,5) lpos
    have "numProcessedRows' st' = numProcessedRows' st + min ?B ?left"
      "numRows' st' = numRows' st" "numRowsPerOutput' st' = ?B" "driverInv st'"
      unfolding driverInv_def by (auto split: option.splits)
    with o False show ?thesis by simp
  qed
  from all show "out = (if ?left = 0 then None else Some (min ?B ?left))"
    and "numProcessedRows' st'
           = numProcessedRows' st + (case out of None \<Rightarrow> 0 | Some r \<Rightarrow> r)"
    and "numRows' st' = numRows' st" and "numRowsPerOutput' st' = ?B"
    and "driverInv st'"
    by simp_all
qed

lemma getOutputs_rows:
  assumes "driverInv st" and "getOutputs k st = Inr (st', outs)"
  shows "driverInv st' \<and> length outs = k
       \<and> (\<forall>j<k. outs ! j
             = expectedOutput (numRows' st - numProcessedRows' st) (numRowsPerOutput' st) j)
       \<and> numRows' st' - numProcessedRows' st'
           = max 0 (numRows' st - numProcessedRows' st - int k * numRowsPerOutput' st)
       \<and> numRows' st' = numRows' st \<and> numRowsPerOutput' st' = numRowsPerOutput' st"
  using assms
proof (induction k arbitrary: st outs)
  case 0
  then have left0: "0 \<le> numRows' st - numProcessedRows' st"
    using sum_list_numRows_nonneg [of "windowBuild' st"]
    by (cases "currentPartition' st") (auto simp: driverInv_def remainingRows_def)
  with 0 show ?case by simp
next
  case (Suc k)
  let ?left = "numRows' st - numProcessedRows' st"
  let ?B = "numRowsPerOutput' st"
  from Suc.prems(2) obtain st1 out outs1 where
    g: "getOutput st = Inr (st1, out)" and
    r: "getOutputs k st1 = Inr (st', outs1)" and
    o: "outs = out # outs1"
    by (auto split: sum.splits prod.splits)
  note f = getOutput_rows [OF Suc.prems(1) g]
  note ih = Suc.IH [OF f(5) r]
  from Suc.prems(1) have B: "0 < ?B" and left0: "0 \<le> ?left"
    using sum_list_numRows_nonneg [of "windowBuild' st"]
    by (cases "currentPartition' st"; auto simp: driverInv_def remainingRows_def)+
  have left1: "numRows' st1 - numProcessedRows' st1 = max 0 (?left - ?B)"
    using f(1,2,3) B left0 by (auto split: if_splits)
  have e0: "out = expectedOutput ?left ?B 0"
    using f(1) left0 by (auto simp: expectedOutput_def)
  have ej: "expectedOutput (max 0 (?left - ?B)) ?B j = expectedOutput ?left ?B (Suc j)" for j
  proof -
    define t where "t = int j * ?B"
    have t: "0 \<le> t" using B by (simp add: t_def)
    have s: "int (Suc j) * ?B = ?B + t" by (simp add: t_def algebra_simps)
    show ?thesis
      unfolding expectedOutput_def s t_def [symmetric] using t B by (auto simp: max_def)
  qed
  have nth: "\<forall>j<Suc k. outs ! j = expectedOutput ?left ?B j"
  proof (intro allI impI)
    fix j assume "j < Suc k"
    then show "outs ! j = expectedOutput ?left ?B j"
      using ih e0 ej [symmetric] left1 f(4) o by (cases j) simp_all
  qed
  have rest: "numRows' st' - numProcessedRows' st' = max 0 (?left - int (Suc k) * ?B)"
  proof -
    have "numRows' st' - numProcessedRows' st' = max 0 (max 0 (?left - ?B) - int k * ?B)"
      using ih left1 f(4) by simp
    also have "\<dots> = max 0 (?left - int (Suc k) * ?B)"
    proof -
      define t where "t = int k * ?B"
      have t: "0 \<le> t" using B by (simp add: t_def)
      have s: "int (Suc k) * ?B = ?B + t" by (simp add: t_def algebra_simps)
      show ?thesis
        unfolding s t_def [symmetric] using t B by (auto simp: max_def)
    qed
    finally show ?thesis .
  qed
  from ih nth rest f(3,4) o show ?case by simp
qed

lemma updateFrameBounds_noK:
  "\<not> isKBound (if isStartBound then frameStartType f else frameEndType f) \<Longrightarrow>
     fst (updateFrameBounds p off f isStartBound startRow n ps pe buf) = None"
  by (auto simp: updateFrameBounds_def isKBound_def Let_def split: BoundType.splits)

lemma computeFrameBuffers_noK:
  assumes "noKBounds f"
  shows "\<exists>r called. computeFrameBuffers p off f startRow n ps pe fs fe = (None, r, called)"
proof -
  from assms have "fst (updateFrameBounds p off f True startRow n ps pe fs) = None"
    "fst (updateFrameBounds p off f False startRow n ps pe fe) = None"
    using updateFrameBounds_noK [of True f] updateFrameBounds_noK [of False f]
    by (simp_all add: noKBounds_def)
  then obtain b1 c1 b2 c2 where
    "updateFrameBounds p off f True startRow n ps pe fs = (None, b1, c1)"
    "updateFrameBounds p off f False startRow n ps pe fe = (None, b2, c2)"
    by (metis prod.collapse)
  then show ?thesis
    by (simp add: computeFrameBuffers_def Let_def del: split_paired_Ex)
qed

lemma frameLoop_noK:
  "\<forall>i\<in>set is. noKBounds (windowFrames' st ! i) \<Longrightarrow>
     \<exists>st'. frameLoop p startRow n is st = Inr st'"
proof (induction "is" arbitrary: st)
  case Nil
  then show ?case by simp
next
  case (Cons i "is")
  from Cons.prems have "noKBounds (windowFrames' st ! i)" by simp
  from computeFrameBuffers_noK [OF this] obtain fs fe valid called where
    c: "computeFrameBuffers p (partitionOffset' st) (windowFrames' st ! i) startRow n
             (peerStartBuffer' st) (peerEndBuffer' st)
             (frameStartBuffers' st ! i) (frameEndBuffers' st ! i)
          = (None, (fs, fe, valid), called)"
    by (metis prod_cases3)
  let ?s = "st\<lparr>frameStartBuffers' := (frameStartBuffers' st)[i := fs],
                frameEndBuffers' := (frameEndBuffers' st)[i := fe],
                validFrames' := (validFrames' st)[i := valid],
                calls := calls st @ called\<rparr>"
  from Cons.prems have "\<forall>i\<in>set is. noKBounds (windowFrames' ?s ! i)" by simp
  from Cons.IH [OF this] c show ?case by (simp add: Let_def)
qed

lemma callApplyForPartitionRows_noK:
  assumes "currentPartition' st = Some p"
    and "\<forall>i<length (windowFunctions' st). noKBounds (windowFrames' st ! i)"
  shows "\<exists>st'. callApplyForPartitionRows st startRow endRow resultOffset = Inr st'"
proof -
  from assms(1) obtain st1 where
    g: "getInputColumns st startRow endRow resultOffset = Inr st1" and
    s1: "currentPartition' st1 = Some p" "windowFunctions' st1 = windowFunctions' st"
      "windowFrames' st1 = windowFrames' st"
    by (simp add: getInputColumns_def Let_def)
  obtain ps pe peerStarts peerEnds where
    c: "computePeerBuffers p startRow endRow (peerStartRow' st1) (peerEndRow' st1)
          = ((ps, pe), peerStarts, peerEnds)"
    by (metis prod_cases3 surj_pair)
  let ?s = "st1\<lparr>peerStartRow' := ps, peerEndRow' := pe,
           peerStartBuffer' := copy_n peerStarts (endRow - startRow) (peerStartBuffer' st1),
           peerEndBuffer' := copy_n peerEnds (endRow - startRow) (peerEndBuffer' st1),
           calls := calls st1
             @ [ComputePeerBuffers startRow endRow (peerStartRow' st1) (peerEndRow' st1)]\<rparr>"
  from assms(2) s1 have "\<forall>i\<in>set [0..<length (windowFunctions' st1)].
      noKBounds (windowFrames' ?s ! i)" by simp
  from frameLoop_noK [OF this, of p startRow "endRow - startRow"] obtain st2 where
    "frameLoop p startRow (endRow - startRow) [0..<length (windowFunctions' st1)] ?s = Inr st2"
    by blast
  with g s1 c show ?thesis
    by (simp add: callApplyForPartitionRows_def computePeerAndFrameBuffers_def Let_def)
qed

lemma callApplyLoop_static:
  "callApplyLoop st numOutputRowsLeft resultIndex = Inr st' \<Longrightarrow>
     windowFunctions' st' = windowFunctions' st \<and> windowFrames' st' = windowFrames' st
     \<and> numInputColumns' st' = numInputColumns' st"
proof (induction st numOutputRowsLeft resultIndex rule: callApplyLoop.induct)
  case (1 st left ri)
  show ?case
  proof (cases "0 < left")
    case False
    with "1.prems" show ?thesis by (simp add: callApplyLoop_done)
  next
    case pos: True
    with "1.prems" obtain p where p: "currentPartition' st = Some p"
      by (subst (asm) callApplyLoop.simps) (auto split: option.splits)
    let ?off = "partitionOffset' st"
    let ?rows = "numRows p - ?off"
    show ?thesis
    proof (cases "?rows \<le> left")
      case False
      with "1.prems" pos p have
        "callApplyForPartitionRows st ?off (?off + left) ri = Inr st'"
        by (simp add: callApplyLoop_partial)
      from callApplyForPartitionRows_Inr [OF this] show ?thesis by simp
    next
      case True
      from "1.prems" pos p True obtain st1 where
        r: "callApplyForPartitionRows st ?off (?off + ?rows) ri = Inr st1" and
        l: "(if currentPartition' (callResetPartition st1) = None
             then Inr (callResetPartition st1)
             else callApplyLoop (callResetPartition st1) (left - ?rows) (ri + ?rows)) = Inr st'"
        by (auto simp: callApplyLoop_full [OF pos p refl True] split: sum.splits)
      note f = callApplyForPartitionRows_Inr [OF r]
      show ?thesis
      proof (cases "currentPartition' (callResetPartition st1) = None")
        case True
        with l f show ?thesis by (auto simp: callResetPartition_simps)
      next
        case False
        with l have "callApplyLoop (callResetPartition st1) (left - ?rows) (ri + ?rows)
            = Inr st'" by simp
        from "1.IH" [OF pos p refl True r refl False this] f show ?thesis
          by (simp add: callResetPartition_simps)
      qed
    qed
  qed
qed

lemma callApplyLoop_noK:
  assumes "0 < numOutputRowsLeft \<longrightarrow> currentPartition' st \<noteq> None"
    and "\<forall>i<length (windowFunctions' st). noKBounds (windowFrames' st ! i)"
  shows "\<exists>st'. callApplyLoop st numOutputRowsLeft resultIndex = Inr st'"
  using assms
proof (induction st numOutputRowsLeft resultIndex rule: callApplyLoop.induct)
  case (1 st left ri)
  show ?case
  proof (cases "0 < left")
    case False
    then show ?thesis by (simp add: callApplyLoop_done)
  next
    case pos: True
    with "1.prems"(1) obtain p where p: "currentPartition' st = Some p" by auto
    let ?off = "partitionOffset' st"
    let ?rows = "numRows p - ?off"
    show ?thesis
    proof (cases "?rows \<le> left")
      case False
      with pos p callApplyForPartitionRows_noK [OF p "1.prems"(2)] show ?thesis
        by (simp add: callApplyLoop_partial)
    next
      case True
      from callApplyForPartitionRows_noK [OF p "1.prems"(2)] obtain st1 where
        r: "callApplyForPartitionRows st ?off (?off + ?rows) ri = Inr st1"
        by blast
      note f = callApplyForPartitionRows_Inr [OF r]
      show ?thesis
      proof (cases "currentPartition' (callResetPartition st1) = None")
        case True
        with r show ?thesis
          by (simp add: callApplyLoop_full [OF pos p refl \<open>?rows \<le> left\<close>])
      next
        case False
        have "\<exists>st'. callApplyLoop (callResetPartition st1) (left - ?rows) (ri + ?rows)
            = Inr st'"
          using "1.prems"(2) f False
          by (intro "1.IH" [OF pos p refl True r refl False])
             (simp_all add: callResetPartition_simps)
        with r False show ?thesis
          by (simp add: callApplyLoop_full [OF pos p refl \<open>?rows \<le> left\<close>])
      qed
    qed
  qed
qed

lemma getOutput_cases:
  "getOutput st =
     (if numRows' st = 0 \<or> numRows' st - numProcessedRows' st = 0 then Inr (st, None)
      else if currentPartition' (withPartition st) = None then Inr (withPartition st, None)
      else (case callApplyLoop (withPartition st)
                   (min (numRowsPerOutput' st) (numRows' st - numProcessedRows' st)) 0 of
              Inl e \<Rightarrow> Inl e
            | Inr st2 \<Rightarrow>
                Inr (st2, Some (min (numRowsPerOutput' st)
                                  (numRows' st - numProcessedRows' st)))))"
  by (simp add: getOutput_def withPartition_def Let_def callResetPartition_simps
      split: sum.splits)

lemma withPartition_simps:
  "windowFunctions' (withPartition st) = windowFunctions' st"
  "windowFrames' (withPartition st) = windowFrames' st"
  "numRows' (withPartition st) = numRows' st"
  "numProcessedRows' (withPartition st) = numProcessedRows' st"
  "numRowsPerOutput' (withPartition st) = numRowsPerOutput' st"
  by (simp_all add: withPartition_def callResetPartition_simps)

lemma getOutput_static:
  assumes "getOutput st = Inr (st', out)"
  shows "windowFunctions' st' = windowFunctions' st \<and> windowFrames' st' = windowFrames' st"
proof (cases "numRows' st = 0 \<or> numRows' st - numProcessedRows' st = 0")
  case True
  with assms have "st' = st" by (simp add: getOutput_cases)
  then show ?thesis by simp
next
  case False
  show ?thesis
  proof (cases "currentPartition' (withPartition st) = None")
    case True
    with False assms have "st' = withPartition st"
      by (simp add: getOutput_cases)
    then show ?thesis by (simp add: withPartition_simps)
  next
    case c: False
    with False assms have "callApplyLoop (withPartition st)
        (min (numRowsPerOutput' st) (numRows' st - numProcessedRows' st)) 0 = Inr st'"
      by (simp add: getOutput_cases split: sum.splits)
    from callApplyLoop_static [OF this] show ?thesis by (simp add: withPartition_simps)
  qed
qed

lemma getOutput_noK:
  assumes "\<forall>i<length (windowFunctions' st). noKBounds (windowFrames' st ! i)"
  shows "\<exists>st' out. getOutput st = Inr (st', out)"
proof (cases "currentPartition' (withPartition st) = None")
  case True
  then show ?thesis by (simp add: getOutput_cases)
next
  case False
  let ?n = "min (numRowsPerOutput' st) (numRows' st - numProcessedRows' st)"
  have k: "\<forall>i<length (windowFunctions' (withPartition st)).
      noKBounds (windowFrames' (withPartition st) ! i)"
    using assms by (simp add: withPartition_simps)
  from False have "0 < ?n \<longrightarrow> currentPartition' (withPartition st) \<noteq> None" by simp
  from callApplyLoop_noK [OF this k, of 0] obtain st2 where
    "callApplyLoop (withPartition st) ?n 0 = Inr st2" by blast
  then show ?thesis by (simp add: getOutput_cases)
qed

lemma getOutputs_noK:
  "\<forall>i<length (windowFunctions' st). noKBounds (windowFrames' st ! i) \<Longrightarrow>
     \<exists>st' outs. getOutputs k st = Inr (st', outs)"
proof (induction k arbitrary: st)
  case 0
  then show ?case by simp
next
  case (Suc k)
  from getOutput_noK [OF Suc.prems] obtain st1 out where
    g: "getOutput st = Inr (st1, out)" by blast
  from getOutput_static [OF g] Suc.prems
  have "\<forall>i<length (windowFunctions' st1). noKBounds (windowFrames' st1 ! i)" by simp
  from Suc.IH [OF this] g show ?case by auto
qed

lemma driverInv_newWindow:
  assumes "\<forall>p\<in>set partitions. 0 < numRows p" and "0 < numRowsPerOutput"
  shows "driverInv (newWindow functions frames partitions numRowsPerOutput)"
  using assms by (simp add: driverInv_def newWindow_def remainingRows_def)

text \<open>
  C2. Let the input be finalized (\<open>driverInv\<close>), \<open>R\<close> be the total row count, \<open>P\<close> the
  rows processed so far and \<open>B\<close> the output budget. Whenever \<open>k\<close> successive \<open>getOutput\<close>
  calls return, call \<open>j\<close> returns no output if no row is left before it and else a
  vector of exactly \<open>min(B, rows left before it)\<close> rows, where the rows left before call
  \<open>j\<close> are \<open>R - P - j * B\<close>, or none if that is negative; each call advances the
  processed rows by the size of what it returns, and the operator is again ready for
  the next call. When no frame has a K bound the calls do return. Inside a call, a
  round of the loop with budget left either finds that the rest of the current
  partition fits in the budget, processes it to the partition's end, resets to the next
  partition and goes on with the budget reduced (or stops when there is no next
  partition); or it processes exactly the budget left, staying in the partition with
  the cursor before its end.
\<close>

theorem getOutput_row_counts:
  assumes "driverInv st"
    and "R = numRows' st" and "P = numProcessedRows' st" and "B = numRowsPerOutput' st"
  shows "(\<forall>k st' outs. getOutputs k st = Inr (st', outs) \<longrightarrow>
            length outs = k
            \<and> (\<forall>j<k. outs ! j = (if R - P - int j * B \<le> 0 then None
                                  else Some (min B (R - P - int j * B))))
            \<and> numRows' st' - numProcessedRows' st' = max 0 (R - P - int k * B)
            \<and> driverInv st')
       \<and> (\<forall>st' out. getOutput st = Inr (st', out) \<longrightarrow>
            out = (if R - P = 0 then None else Some (min B (R - P)))
            \<and> numProcessedRows' st' = P + (case out of None \<Rightarrow> 0 | Some r \<Rightarrow> r)
            \<and> driverInv st')
       \<and> ((\<forall>i<length (windowFunctions' st). noKBounds (windowFrames' st ! i)) \<longrightarrow>
            (\<forall>k. \<exists>st' outs. getOutputs k st = Inr (st', outs)))
       \<and> (\<forall>left resultIndex p rows.
            0 < left \<and> currentPartition' st = Some p
            \<and> rows = numRows p - partitionOffset' st \<and> rows \<le> left \<longrightarrow>
            callApplyLoop st left resultIndex
              = (case callApplyForPartitionRows st (partitionOffset' st)
                        (partitionOffset' st + rows) resultIndex of
                   Inl e \<Rightarrow> Inl e
                 | Inr st1 \<Rightarrow>
                     if currentPartition' (callResetPartition st1) = None
                     then Inr (callResetPartition st1)
                     else callApplyLoop (callResetPartition st1) (left - rows)
                            (resultIndex + rows)))
       \<and> (\<forall>left resultIndex p st'.
            0 < left \<and> currentPartition' st = Some p
            \<and> left < numRows p - partitionOffset' st
            \<and> callApplyLoop st left resultIndex = Inr st' \<longrightarrow>
            callApplyForPartitionRows st (partitionOffset' st) (partitionOffset' st + left)
              resultIndex = Inr st'
            \<and> currentPartition' st' = Some p \<and> windowBuild' st' = windowBuild' st
            \<and> partitionOffset' st' = partitionOffset' st + left
            \<and> partitionOffset' st' < numRows p
            \<and> numProcessedRows' st' = P + left)"
proof (intro conjI allI impI)
  fix k st' outs
  assume g: "getOutputs k st = Inr (st', outs)"
  note r = getOutputs_rows [OF assms(1) g]
  from r show "length outs = k" and "driverInv st'"
    and "numRows' st' - numProcessedRows' st' = max 0 (R - P - int k * B)"
    by (simp_all add: assms(2-4))
  fix j
  assume "j < k"
  with r show "outs ! j = (if R - P - int j * B \<le> 0 then None
                            else Some (min B (R - P - int j * B)))"
    by (simp add: assms(2-4) expectedOutput_def)
next
  fix st' out
  assume g: "getOutput st = Inr (st', out)"
  note r = getOutput_rows [OF assms(1) g]
  from r show "out = (if R - P = 0 then None else Some (min B (R - P)))"
    and "numProcessedRows' st' = P + (case out of None \<Rightarrow> 0 | Some r \<Rightarrow> r)"
    and "driverInv st'"
    by (simp_all add: assms(2-4))
next
  fix k
  assume "\<forall>i<length (windowFunctions' st). noKBounds (windowFrames' st ! i)"
  then show "\<exists>st' outs. getOutputs k st = Inr (st', outs)"
    by (rule getOutputs_noK)
next
  fix left resultIndex p rows
  assume "0 < left \<and> currentPartition' st = Some p
            \<and> rows = numRows p - partitionOffset' st \<and> rows \<le> left"
  then show "callApplyLoop st left resultIndex
              = (case callApplyForPartitionRows st (partitionOffset' st)
                        (partitionOffset' st + rows) resultIndex of
                   Inl e \<Rightarrow> Inl e
                 | Inr st1 \<Rightarrow>
                     if currentPartition' (callResetPartition st1) = None
                     then Inr (callResetPartition st1)
                     else callApplyLoop (callResetPartition st1) (left - rows)
                            (resultIndex + rows))"
    using callApplyLoop_full [of left st p rows resultIndex] by simp
next
  fix left resultIndex p st'
  assume h: "0 < left \<and> currentPartition' st = Some p
            \<and> left < numRows p - partitionOffset' st
            \<and> callApplyLoop st left resultIndex = Inr st'"
  then have r: "callApplyForPartitionRows st (partitionOffset' st)
      (partitionOffset' st + left) resultIndex = Inr st'"
    using callApplyLoop_partial [of left st p resultIndex] by simp
  then show "callApplyForPartitionRows st (partitionOffset' st) (partitionOffset' st + left)
              resultIndex = Inr st'" .
  note f = callApplyForPartitionRows_Inr [OF r]
  from f h show "currentPartition' st' = Some p" and "windowBuild' st' = windowBuild' st"
    and "partitionOffset' st' = partitionOffset' st + left"
    and "partitionOffset' st' < numRows p"
    and "numProcessedRows' st' = P + left"
    by (simp_all add: assms(3))
qed

text \<open>
  The spec's example: one partition of 10 rows and a budget of 4 rows. Four successive
  calls return 4, 4 and 2 rows and then no output.
\<close>

theorem getOutput_row_counts_witness:
  "\<exists>st'. getOutputs 4 (newWindow [''sum''] [rowsUnboundedPrecedingCurrentRow]
             [distinctKeysPartition 10 (\<lambda>c. [])] 4)
          = Inr (st', [Some 4, Some 4, Some 2, None])"
proof -
  let ?st = "newWindow [''sum''] [rowsUnboundedPrecedingCurrentRow]
               [distinctKeysPartition 10 (\<lambda>c. [])] 4"
  have inv: "driverInv ?st"
    by (rule driverInv_newWindow) (simp_all add: distinctKeysPartition_def)
  have v: "numRows' ?st = 10" "numProcessedRows' ?st = 0" "numRowsPerOutput' ?st = 4"
    by (simp_all add: newWindow_def distinctKeysPartition_def)
  have nk: "\<forall>i<length (windowFunctions' ?st). noKBounds (windowFrames' ?st ! i)"
    by (simp add: newWindow_def noKBounds_def isKBound_def
        rowsUnboundedPrecedingCurrentRow_def)
  note t = getOutput_row_counts [OF inv refl refl refl]
  from t nk obtain st' outs where g: "getOutputs 4 ?st = Inr (st', outs)"
    by blast
  from t g have len: "length outs = 4"
    and nth: "\<forall>j<4. outs ! j = (if 10 - 0 - int j * 4 \<le> 0 then None
                                  else Some (min 4 (10 - 0 - int j * 4)))"
    unfolding v by blast+
  have "outs = [Some 4, Some 4, Some 2, None]"
  proof (rule nth_equalityI)
    show "length outs = length [Some 4, Some 4, Some 2, None :: int option]"
      using len by simp
    fix j assume "j < length outs"
    with len have "j = 0 \<or> j = 1 \<or> j = 2 \<or> j = 3" by auto
    with nth show "outs ! j = [Some 4, Some 4, Some 2, None] ! j"
      by auto
  qed
  with g show ?thesis by blast
qed

section \<open>The partition life cycle in the calls of the operator\<close>

lemma monitor_append:
  "monitor nf (xs @ ys) m
     = (case monitor nf xs m of None \<Rightarrow> None | Some m' \<Rightarrow> monitor nf ys m')"
  by (induction xs arbitrary: m) (auto split: option.splits)

lemma monitor_extractCalls: "monitor nf (extractCalls st n r) m = Some m"
proof -
  have "monitor nf (map (\<lambda>i. ExtractColumn i off n r) cs) m = Some m" for off cs
    by (induction cs) simp_all
  then show ?thesis by (simp add: extractCalls_def)
qed

lemma monitor_frameCalls: "monitor nf (frameCalls st n) m = Some m"
proof -
  have side: "monitor nf (offsetCalls f b off n) m' = Some m'" for f b off m'
    by (simp add: offsetCalls_def split: option.splits)
  have "monitor nf (concat (map (\<lambda>w. offsetCalls (g w) True off n
      @ offsetCalls (g w) False off n) ws)) m = Some m" for g off ws
    by (induction ws) (simp_all add: monitor_append side)
  then show ?thesis by (simp add: frameCalls_def)
qed

lemma monitor_applyCalls:
  assumes "announced m \<noteq> None" and "resets m = nf" and "length (windowFunctions' st) = nf"
  shows "monitor nf (applyCalls st n r) m = Some m"
proof -
  have "\<forall>w\<in>set ws. w < nf \<Longrightarrow>
      monitor nf (map (\<lambda>w. Apply w (a w) (b w) (c w) (d w) (e w) r) ws) m = Some m"
    for ws a b c d e
    using assms(1,2) by (induction ws) simp_all
  from this [of "[0..<length (windowFunctions' st)]"] assms(3) show ?thesis
    by (simp add: applyCalls_def)
qed

lemma monitor_resets_rest:
  assumes "announced m = Some p" and "resets m = k" and "0 < k" and "k \<le> nf"
  shows "monitor nf (map (\<lambda>i. ResetPartition i p) [k..<nf]) m = Some (m\<lparr>resets := nf\<rparr>)"
  using assms
proof (induction "nf - k" arbitrary: k m)
  case 0
  then show ?case by simp
next
  case (Suc d)
  then have kn: "k < nf" and d: "d = nf - Suc k" by simp_all
  have "monitor nf (map (\<lambda>i. ResetPartition i p) [k..<nf]) m
      = monitor nf (map (\<lambda>i. ResetPartition i p) [Suc k..<nf]) (m\<lparr>resets := Suc k\<rparr>)"
    using kn Suc.prems by (simp add: upt_rec [of k nf])
  also have "\<dots> = Some (m\<lparr>resets := Suc k\<rparr>\<lparr>resets := nf\<rparr>)"
    using Suc.prems kn by (intro Suc.hyps(1) [OF d]) simp_all
  finally show ?case by simp
qed

lemma monitor_resets:
  assumes "finished nf m" and "0 < nf"
  shows "monitor nf (map (\<lambda>i. ResetPartition i p) [0..<nf]) m
     = Some \<lparr>announced = Some p, resets = nf, cursor = 0\<rparr>"
proof -
  let ?m1 = "\<lparr>announced = Some p, resets = 1, cursor = 0\<rparr>"
  have "monitor nf (map (\<lambda>i. ResetPartition i p) [0..<nf]) m
      = monitor nf (map (\<lambda>i. ResetPartition i p) [1..<nf]) ?m1"
    using assms by (simp add: upt_rec [of 0 nf])
  also have "\<dots> = Some (?m1\<lparr>resets := nf\<rparr>)"
    using assms(2) by (intro monitor_resets_rest) simp_all
  finally show ?thesis by simp
qed

lemma monitor_slice:
  assumes r: "callApplyForPartitionRows st (partitionOffset' st) e resultOffset = Inr st'"
    and p: "currentPartition' st = Some p"
    and b: "partitionOffset' st < numRows p" "e \<le> numRows p"
    and m: "monitor (length (windowFunctions' st)) (calls st) m0 = Some m" "agrees st m"
  shows "monitor (length (windowFunctions' st')) (calls st') m0 = Some (m\<lparr>cursor := e\<rparr>)"
    and "agrees st' (m\<lparr>cursor := e\<rparr>)"
proof -
  let ?nf = "length (windowFunctions' st)"
  note f = callApplyForPartitionRows_Inr [OF r]
  from m(2) p have a: "announced m = Some p" "resets m = ?nf" "cursor m = partitionOffset' st"
    by (simp_all add: agrees_def)
  have s: "monitorStep ?nf (ComputePeerBuffers (partitionOffset' st) e (peerStartRow' st)
      (peerEndRow' st)) m = Some (m\<lparr>cursor := e\<rparr>)"
    using a b by simp
  have ap: "monitor ?nf (applyCalls st' (e - partitionOffset' st) resultOffset)
      (m\<lparr>cursor := e\<rparr>) = Some (m\<lparr>cursor := e\<rparr>)"
    using a f(5) by (intro monitor_applyCalls) simp_all
  have c2: "monitor ?nf
      (ComputePeerBuffers (partitionOffset' st) e (peerStartRow' st) (peerEndRow' st)
        # frameCalls st (e - partitionOffset' st)
        @ applyCalls st' (e - partitionOffset' st) resultOffset) m = Some (m\<lparr>cursor := e\<rparr>)"
    using s ap by (simp add: monitor_append monitor_frameCalls)
  show "monitor (length (windowFunctions' st')) (calls st') m0 = Some (m\<lparr>cursor := e\<rparr>)"
    using m(1) c2
    by (simp add: f(5) f(11) monitor_append monitor_extractCalls del: monitor.simps)
  show "agrees st' (m\<lparr>cursor := e\<rparr>)"
    using a p f(4,5,10) by (simp add: agrees_def)
qed

lemma monitor_reset:
  assumes "monitor (length (windowFunctions' st)) (calls st) m0 = Some m"
    and "finished (length (windowFunctions' st)) m" and "windowFunctions' st \<noteq> []"
  shows "\<exists>m'. monitor (length (windowFunctions' (callResetPartition st)))
                 (calls (callResetPartition st)) m0 = Some m'
              \<and> agrees (callResetPartition st) m'"
proof (cases "windowBuild' st")
  case Nil
  with assms show ?thesis
    by (simp add: callResetPartition_simps agrees_def)
next
  case (Cons q rest)
  let ?nf = "length (windowFunctions' st)"
  from assms(3) have "0 < ?nf" by simp
  from monitor_resets [OF assms(2) this, of q] assms(1) Cons show ?thesis
    by (simp add: callResetPartition_simps monitor_append agrees_def)
qed

lemma callApplyLoop_tracked:
  assumes "callApplyLoop st numOutputRowsLeft resultIndex = Inr st'"
    and "\<forall>p\<in>set (windowBuild' st). 0 < numRows p"
    and "currentPartition' st = Some p"
    and "0 \<le> partitionOffset' st" "partitionOffset' st < numRows p"
    and "windowFunctions' st \<noteq> []"
    and "monitor (length (windowFunctions' st)) (calls st) m0 = Some m" and "agrees st m"
  shows "\<exists>m'. monitor (length (windowFunctions' st')) (calls st') m0 = Some m'
           \<and> agrees st' m'"
  using assms
proof (induction st numOutputRowsLeft resultIndex arbitrary: p m rule: callApplyLoop.induct)
  case (1 st left ri)
  let ?off = "partitionOffset' st"
  let ?rows = "numRows p - ?off"
  show ?case
  proof (cases "0 < left")
    case False
    with "1.prems" show ?thesis by (auto simp: callApplyLoop_done)
  next
    case pos: True
    show ?thesis
    proof (cases "?rows \<le> left")
      case False
      with "1.prems"(1,3) pos have
        r: "callApplyForPartitionRows st ?off (?off + left) ri = Inr st'"
        by (simp add: callApplyLoop_partial)
      from False have "?off + left \<le> numRows p" by simp
      from monitor_slice [OF r "1.prems"(3,5) this "1.prems"(7,8)] show ?thesis
        by blast
    next
      case True
      from "1.prems"(1,3) pos True obtain st1 where
        r: "callApplyForPartitionRows st ?off (?off + ?rows) ri = Inr st1" and
        l: "(if currentPartition' (callResetPartition st1) = None
             then Inr (callResetPartition st1)
             else callApplyLoop (callResetPartition st1) (left - ?rows) (ri + ?rows)) = Inr st'"
        by (auto simp: callApplyLoop_full [OF pos "1.prems"(3) refl True] split: sum.splits)
      note f = callApplyForPartitionRows_Inr [OF r]
      let ?st2 = "callResetPartition st1"
      let ?m1 = "m\<lparr>cursor := ?off + ?rows\<rparr>"
      have "?off + ?rows \<le> numRows p" by simp
      note s = monitor_slice [OF r "1.prems"(3,5) this "1.prems"(7,8)]
      from s(2) f(4) "1.prems"(3) have fin: "finished (length (windowFunctions' st1)) ?m1"
        by (simp add: agrees_def finished_def)
      from f(5) "1.prems"(6) have ne: "windowFunctions' st1 \<noteq> []" by simp
      from monitor_reset [OF s(1) fin ne] obtain m2 where
        m2: "monitor (length (windowFunctions' ?st2)) (calls ?st2) m0 = Some m2"
          "agrees ?st2 m2"
        by blast
      show ?thesis
      proof (cases "currentPartition' ?st2")
        case None
        with l have "st' = ?st2" by simp
        with m2 show ?thesis by blast
      next
        case (Some q)
        with l have l': "callApplyLoop ?st2 (left - ?rows) (ri + ?rows) = Inr st'"
          by simp
        from Some f(3) obtain rest where b: "windowBuild' st = q # rest"
          by (cases "windowBuild' st") (simp_all add: callResetPartition_simps)
        with "1.prems"(2) have q: "0 < numRows q" "\<forall>p\<in>set rest. 0 < numRows p"
          by simp_all
        show ?thesis
        proof (rule "1.IH" [OF pos "1.prems"(3) refl True r refl _ l' _ Some _ _ _ m2])
          show "currentPartition' ?st2 \<noteq> None" using Some by simp
          show "\<forall>p\<in>set (windowBuild' ?st2). 0 < numRows p"
            using b q f(3) by (simp add: callResetPartition_simps)
          show "0 \<le> partitionOffset' ?st2" by (simp add: callResetPartition_simps)
          show "partitionOffset' ?st2 < numRows q"
            using q by (simp add: callResetPartition_simps)
          show "windowFunctions' ?st2 \<noteq> []"
            using ne by (simp add: callResetPartition_simps)
        qed
      qed
    qed
  qed
qed

lemma getOutput_tracked:
  assumes "driverInv st" and "tracked st" and "windowFunctions' st \<noteq> []"
    and "getOutput st = Inr (st', out)"
  shows "tracked st'"
proof -
  let ?nf = "length (windowFunctions' st)"
  from assms(2) obtain m where
    m: "monitor ?nf (calls st) noPartitionYet = Some m" "agrees st m"
    by (auto simp: tracked_def split: option.splits)
  from assms(1) have inv: "\<forall>p\<in>set (windowBuild' st). 0 < numRows p"
    "\<And>p. currentPartition' st = Some p \<Longrightarrow>
       0 \<le> partitionOffset' st \<and> partitionOffset' st < numRows p"
    by (auto simp: driverInv_def)
  have w: "\<exists>m1. monitor (length (windowFunctions' (withPartition st)))
        (calls (withPartition st)) noPartitionYet = Some m1
      \<and> agrees (withPartition st) m1"
  proof (cases "currentPartition' st")
    case None
    with m(2) have "finished ?nf m" by (simp add: agrees_def)
    from monitor_reset [OF m(1) this assms(3)] None show ?thesis
      by (simp add: withPartition_def)
  next
    case (Some p)
    with m show ?thesis by (auto simp: withPartition_def)
  qed
  then obtain m1 where m1: "monitor (length (windowFunctions' (withPartition st)))
        (calls (withPartition st)) noPartitionYet = Some m1" "agrees (withPartition st) m1"
    by blast
  have t1: "tracked (withPartition st)"
    using m1 by (simp add: tracked_def)
  show ?thesis
  proof (cases "numRows' st = 0 \<or> numRows' st - numProcessedRows' st = 0")
    case True
    with assms(4) have "st' = st" by (simp add: getOutput_cases)
    with assms(2) show ?thesis by simp
  next
    case False
    show ?thesis
    proof (cases "currentPartition' (withPartition st)")
      case None
      with False assms(4) have "st' = withPartition st" by (simp add: getOutput_cases)
      with t1 show ?thesis by simp
    next
      case (Some q)
      with False assms(4) have l: "callApplyLoop (withPartition st)
          (min (numRowsPerOutput' st) (numRows' st - numProcessedRows' st)) 0 = Inr st'"
        by (simp add: getOutput_cases split: sum.splits)
      have pre: "(\<forall>p\<in>set (windowBuild' (withPartition st)). 0 < numRows p)
          \<and> 0 \<le> partitionOffset' (withPartition st)
          \<and> partitionOffset' (withPartition st) < numRows q"
      proof (cases "currentPartition' st")
        case None
        with Some obtain rest where "windowBuild' st = q # rest"
          by (cases "windowBuild' st")
             (simp_all add: withPartition_def callResetPartition_simps)
        with None inv(1) show ?thesis
          by (simp add: withPartition_def callResetPartition_simps)
      next
        case (Some p)
        with \<open>currentPartition' (withPartition st) = Some q\<close> inv show ?thesis
          by (simp add: withPartition_def)
      qed
      have ne: "windowFunctions' (withPartition st) \<noteq> []"
        using assms(3) by (simp add: withPartition_simps)
      from callApplyLoop_tracked [OF l _ Some _ _ ne m1] pre
      show ?thesis by (auto simp: tracked_def)
    qed
  qed
qed

lemma getOutputs_tracked:
  assumes "driverInv st" and "tracked st" and "windowFunctions' st \<noteq> []"
    and "getOutputs k st = Inr (st', outs)"
  shows "tracked st' \<and> driverInv st' \<and> windowFunctions' st' = windowFunctions' st"
  using assms
proof (induction k arbitrary: st outs)
  case 0
  then show ?case by simp
next
  case (Suc k)
  from Suc.prems(4) obtain st1 out outs1 where
    g: "getOutput st = Inr (st1, out)" and
    r: "getOutputs k st1 = Inr (st', outs1)"
    by (auto split: sum.splits prod.splits)
  note t = getOutput_tracked [OF Suc.prems(1-3) g]
  note i = getOutput_rows(5) [OF Suc.prems(1) g]
  note s = getOutput_static [OF g]
  from s Suc.prems(3) have "windowFunctions' st1 \<noteq> []" by simp
  from Suc.IH [OF i t this r] s show ?case by simp
qed

lemma tracked_newWindow: "tracked (newWindow functions frames partitions numRowsPerOutput)"
  by (simp add: tracked_def newWindow_def noPartitionYet_def agrees_def finished_def)

text \<open>
  C7. Let the input be finalized and the operator have at least one window function.
  After any number of \<open>getOutput\<close> calls that return, the monitor has accepted every
  call made so far: a partition became current only when the partition before it had
  its cursor at its row count, \<open>resetPartition\<close> was called for it on every function
  exactly once, in the order of the functions, at that moment, and every slice and
  every \<open>apply\<close> came after these calls, within the partition's rows; and a partition
  is current between calls only while its cursor is before its row count.
  \<open>callResetPartition\<close> is what makes the \<open>resetPartition\<close> calls, one per function,
  when it takes the next partition from the window build. In a round of the loop, after
  the slice has been processed, the operator leaves the partition (calls
  \<open>callResetPartition\<close>) if the cursor has reached the partition's row count, and else
  returns with the partition still current.
\<close>

theorem partition_life_cycle:
  assumes "driverInv st" and "tracked st" and "windowFunctions' st \<noteq> []"
    and "nf = length (windowFunctions' st)"
  shows "(\<forall>k st' outs. getOutputs k st = Inr (st', outs) \<longrightarrow>
            (\<exists>m. monitor nf (calls st') noPartitionYet = Some m \<and> agrees st' m)
            \<and> (\<forall>p. currentPartition' st' = Some p \<longrightarrow>
                  0 \<le> partitionOffset' st' \<and> partitionOffset' st' < numRows p))
       \<and> (\<forall>s. calls (callResetPartition s)
                 = calls s @ (case windowBuild' s of
                                [] \<Rightarrow> []
                              | p # rest \<Rightarrow>
                                  map (\<lambda>w. ResetPartition w p)
                                    [0..<length (windowFunctions' s)])
               \<and> currentPartition' (callResetPartition s)
                   = (case windowBuild' s of [] \<Rightarrow> None | p # rest \<Rightarrow> Some p)
               \<and> partitionOffset' (callResetPartition s) = 0)
       \<and> (\<forall>s left resultIndex p s1.
             0 < left \<and> currentPartition' s = Some p
             \<and> callApplyForPartitionRows s (partitionOffset' s)
                  (partitionOffset' s + min left (numRows p - partitionOffset' s))
                  resultIndex = Inr s1 \<longrightarrow>
             callApplyLoop s left resultIndex
               = (if partitionOffset' s1 = numRows p
                  then (if currentPartition' (callResetPartition s1) = None
                        then Inr (callResetPartition s1)
                        else callApplyLoop (callResetPartition s1)
                               (left - (numRows p - partitionOffset' s))
                               (resultIndex + (numRows p - partitionOffset' s)))
                  else Inr s1))"
proof (intro conjI allI impI)
  fix k st' outs
  assume g: "getOutputs k st = Inr (st', outs)"
  note t = getOutputs_tracked [OF assms(1-3) g]
  from t show "\<exists>m. monitor nf (calls st') noPartitionYet = Some m \<and> agrees st' m"
    by (auto simp: tracked_def assms(4) split: option.splits)
  fix p
  assume "currentPartition' st' = Some p"
  with t show "0 \<le> partitionOffset' st'" and "partitionOffset' st' < numRows p"
    by (auto simp: driverInv_def)
next
  fix s :: Window
  show "calls (callResetPartition s)
          = calls s @ (case windowBuild' s of
                         [] \<Rightarrow> []
                       | p # rest \<Rightarrow>
                           map (\<lambda>w. ResetPartition w p) [0..<length (windowFunctions' s)])"
    and "currentPartition' (callResetPartition s)
          = (case windowBuild' s of [] \<Rightarrow> None | p # rest \<Rightarrow> Some p)"
    and "partitionOffset' (callResetPartition s) = 0"
    by (simp_all add: callResetPartition_simps)
next
  fix s left resultIndex p s1
  assume h: "0 < left \<and> currentPartition' s = Some p
             \<and> callApplyForPartitionRows s (partitionOffset' s)
                  (partitionOffset' s + min left (numRows p - partitionOffset' s))
                  resultIndex = Inr s1"
  let ?off = "partitionOffset' s"
  let ?rows = "numRows p - ?off"
  from h have pos: "0 < left" and p: "currentPartition' s = Some p"
    and r: "callApplyForPartitionRows s ?off (?off + min left ?rows) resultIndex = Inr s1"
    by simp_all
  note f = callApplyForPartitionRows_Inr [OF r]
  show "callApplyLoop s left resultIndex
               = (if partitionOffset' s1 = numRows p
                  then (if currentPartition' (callResetPartition s1) = None
                        then Inr (callResetPartition s1)
                        else callApplyLoop (callResetPartition s1) (left - ?rows)
                               (resultIndex + ?rows))
                  else Inr s1)"
  proof (cases "?rows \<le> left")
    case True
    then have m: "min left ?rows = ?rows" by simp
    from f(10) m have "partitionOffset' s1 = numRows p" by simp
    with r m show ?thesis
      by (simp add: callApplyLoop_full [OF pos p refl True])
  next
    case False
    then have m: "min left ?rows = left" by simp
    from f(10) m False have "partitionOffset' s1 \<noteq> numRows p" by simp
    with r m False pos p show ?thesis
      by (simp add: callApplyLoop_partial)
  qed
qed

text \<open>
  Two partitions, of 3 rows and of 2 rows, one function and a budget of 4 rows: two
  \<open>getOutput\<close> calls return, and the monitor accepts all calls made.
\<close>

theorem partition_life_cycle_witness:
  "\<exists>st' outs m.
     getOutputs 2 (newWindow [''rank''] [rowsUnboundedPrecedingCurrentRow]
        [distinctKeysPartition 3 (\<lambda>c. []), distinctKeysPartition 2 (\<lambda>c. [])] 4)
       = Inr (st', outs)
     \<and> monitor 1 (calls st') noPartitionYet = Some m \<and> agrees st' m"
proof -
  let ?st = "newWindow [''rank''] [rowsUnboundedPrecedingCurrentRow]
        [distinctKeysPartition 3 (\<lambda>c. []), distinctKeysPartition 2 (\<lambda>c. [])] 4"
  have inv: "driverInv ?st"
    by (rule driverInv_newWindow) (simp_all add: distinctKeysPartition_def)
  have tr: "tracked ?st" by (rule tracked_newWindow)
  have f: "windowFunctions' ?st \<noteq> []" "1 = length (windowFunctions' ?st)"
    by (simp_all add: newWindow_def)
  have nk: "\<forall>i<length (windowFunctions' ?st). noKBounds (windowFrames' ?st ! i)"
    by (simp add: newWindow_def noKBounds_def isKBound_def
        rowsUnboundedPrecedingCurrentRow_def)
  from getOutputs_noK [OF nk, of 2] obtain st' outs where
    g: "getOutputs 2 ?st = Inr (st', outs)" by blast
  from partition_life_cycle [OF inv tr f] g
  obtain m where "monitor 1 (calls st') noPartitionYet = Some m \<and> agrees st' m"
    by blast
  with g show ?thesis by blast
qed

section \<open>The peer continuation in the calls of the operator\<close>

lemma peerMonitor_append:
  "peerMonitor (xs @ ys) m
     = (case peerMonitor xs m of None \<Rightarrow> None | Some m' \<Rightarrow> peerMonitor ys m')"
  by (induction xs arbitrary: m) (auto split: option.splits)

lemma peerMonitor_extractCalls: "peerMonitor (extractCalls st n r) m = Some m"
proof -
  have "peerMonitor (map (\<lambda>i. ExtractColumn i off n r) cs) m = Some m" for off cs
    by (induction cs) simp_all
  then show ?thesis by (simp add: extractCalls_def)
qed

lemma peerMonitor_frameCalls: "peerMonitor (frameCalls st n) m = Some m"
proof -
  have side: "peerMonitor (offsetCalls f b off n) m' = Some m'" for f b off m'
    by (simp add: offsetCalls_def split: option.splits)
  have "peerMonitor (concat (map (\<lambda>w. offsetCalls (g w) True off n
      @ offsetCalls (g w) False off n) ws)) m = Some m" for g off ws
    by (induction ws) (simp_all add: peerMonitor_append side)
  then show ?thesis by (simp add: frameCalls_def)
qed

lemma peerMonitor_applyCalls: "peerMonitor (applyCalls st n r) m = Some m"
proof -
  have "peerMonitor (map (\<lambda>w. Apply w (a w) (b w) (c w) (d w) (e w) r) ws) m = Some m"
    for ws a b c d e
    by (induction ws) simp_all
  then show ?thesis by (simp add: applyCalls_def)
qed

lemma peerMonitor_resets_rest:
  "0 < k \<Longrightarrow> peerMonitor (map (\<lambda>i. ResetPartition i p) [k..<nf]) m = Some m"
proof (induction "nf - k" arbitrary: k)
  case 0
  then show ?case by simp
next
  case (Suc d)
  then have "k < nf" "d = nf - Suc k" by simp_all
  with Suc.hyps(1) [of "Suc k"] Suc.prems show ?case
    by (simp add: upt_rec [of k nf])
qed

lemma peerMonitor_resets:
  "0 < nf \<Longrightarrow>
     peerMonitor (map (\<lambda>i. ResetPartition i p) [0..<nf]) m
       = Some \<lparr>partitionSeen = Some p, sliceEnd = 0, seedStart = 0, seedEnd = 0\<rparr>"
  using peerMonitor_resets_rest [of 1 p nf]
  by (simp add: upt_rec [of 0 nf])

lemma peerMonitor_slice:
  assumes r: "callApplyForPartitionRows st (partitionOffset' st) e resultOffset = Inr st'"
    and m: "peerMonitor (calls st) m0 = Some m" "peerAgrees st m"
  shows "\<exists>m'. peerMonitor (calls st') m0 = Some m' \<and> peerAgrees st' m'"
proof -
  note f = callApplyForPartitionRows_Inr [OF r]
  from f(1) obtain p where p: "currentPartition' st = Some p"
    and ret: "(peerStartRow' st', peerEndRow' st')
      = fst (computePeerBuffers p (partitionOffset' st) e (peerStartRow' st) (peerEndRow' st))"
    by blast
  from m(2) p have a: "partitionSeen m = Some p" "sliceEnd m = partitionOffset' st"
    "seedStart m = peerStartRow' st" "seedEnd m = peerEndRow' st"
    by (simp_all add: peerAgrees_def)
  let ?m' = "m\<lparr>sliceEnd := e, seedStart := peerStartRow' st', seedEnd := peerEndRow' st'\<rparr>"
  have s: "peerStep (ComputePeerBuffers (partitionOffset' st) e (peerStartRow' st)
      (peerEndRow' st)) m = Some ?m'"
    using a ret by (simp add: prod_eq_iff)
  have c2: "peerMonitor
      (ComputePeerBuffers (partitionOffset' st) e (peerStartRow' st) (peerEndRow' st)
        # frameCalls st (e - partitionOffset' st)
        @ applyCalls st' (e - partitionOffset' st) resultOffset) m = Some ?m'"
    using s by (simp add: peerMonitor_append peerMonitor_applyCalls peerMonitor_frameCalls)
  have "peerMonitor (calls st') m0 = Some ?m'"
    using m(1) c2
    by (simp add: f(11) peerMonitor_append peerMonitor_extractCalls del: peerMonitor.simps)
  moreover have "peerAgrees st' ?m'"
    using a p f(4,10) by (simp add: peerAgrees_def)
  ultimately show ?thesis by blast
qed

lemma peerMonitor_reset:
  assumes "peerMonitor (calls st) m0 = Some m" and "windowFunctions' st \<noteq> []"
  shows "\<exists>m'. peerMonitor (calls (callResetPartition st)) m0 = Some m'
              \<and> peerAgrees (callResetPartition st) m'"
proof (cases "windowBuild' st")
  case Nil
  with assms show ?thesis
    by (simp add: callResetPartition_simps peerAgrees_def)
next
  case (Cons q rest)
  from assms(2) have "0 < length (windowFunctions' st)" by simp
  from peerMonitor_resets [OF this, of q m] assms(1) Cons show ?thesis
    by (simp add: callResetPartition_simps peerMonitor_append peerAgrees_def)
qed

lemma callApplyLoop_seeded:
  assumes "callApplyLoop st numOutputRowsLeft resultIndex = Inr st'"
    and "windowFunctions' st \<noteq> []"
    and "peerMonitor (calls st) m0 = Some m" and "peerAgrees st m"
  shows "\<exists>m'. peerMonitor (calls st') m0 = Some m' \<and> peerAgrees st' m'"
  using assms
proof (induction st numOutputRowsLeft resultIndex arbitrary: m rule: callApplyLoop.induct)
  case (1 st left ri)
  show ?case
  proof (cases "0 < left")
    case False
    with "1.prems" show ?thesis by (auto simp: callApplyLoop_done)
  next
    case pos: True
    with "1.prems"(1) obtain p where p: "currentPartition' st = Some p"
      by (subst (asm) callApplyLoop.simps) (auto split: option.splits)
    let ?off = "partitionOffset' st"
    let ?rows = "numRows p - ?off"
    show ?thesis
    proof (cases "?rows \<le> left")
      case False
      with "1.prems"(1) p pos have
        r: "callApplyForPartitionRows st ?off (?off + left) ri = Inr st'"
        by (simp add: callApplyLoop_partial)
      from peerMonitor_slice [OF r "1.prems"(3,4)] show ?thesis .
    next
      case True
      from "1.prems"(1) p pos True obtain st1 where
        r: "callApplyForPartitionRows st ?off (?off + ?rows) ri = Inr st1" and
        l: "(if currentPartition' (callResetPartition st1) = None
             then Inr (callResetPartition st1)
             else callApplyLoop (callResetPartition st1) (left - ?rows) (ri + ?rows)) = Inr st'"
        by (auto simp: callApplyLoop_full [OF pos p refl True] split: sum.splits)
      note f = callApplyForPartitionRows_Inr [OF r]
      let ?st2 = "callResetPartition st1"
      from peerMonitor_slice [OF r "1.prems"(3,4)] obtain m1 where
        m1: "peerMonitor (calls st1) m0 = Some m1" by blast
      from f(5) "1.prems"(2) have ne: "windowFunctions' st1 \<noteq> []" by simp
      from peerMonitor_reset [OF m1 ne] obtain m2 where
        m2: "peerMonitor (calls ?st2) m0 = Some m2" "peerAgrees ?st2 m2"
        by blast
      show ?thesis
      proof (cases "currentPartition' ?st2 = None")
        case True
        with l have "st' = ?st2" by simp
        with m2 show ?thesis by blast
      next
        case False
        with l have l': "callApplyLoop ?st2 (left - ?rows) (ri + ?rows) = Inr st'"
          by simp
        have "windowFunctions' ?st2 \<noteq> []"
          using ne by (simp add: callResetPartition_simps)
        from "1.IH" [OF pos p refl True r refl False l' this m2] show ?thesis .
      qed
    qed
  qed
qed

lemma getOutput_seeded:
  assumes "seeded st" and "windowFunctions' st \<noteq> []" and "getOutput st = Inr (st', out)"
  shows "seeded st'"
proof -
  from assms(1) obtain m where
    m: "peerMonitor (calls st) noSliceYet = Some m" "peerAgrees st m"
    by (auto simp: seeded_def split: option.splits)
  have "\<exists>m1. peerMonitor (calls (withPartition st)) noSliceYet = Some m1
      \<and> peerAgrees (withPartition st) m1"
  proof (cases "currentPartition' st")
    case None
    with peerMonitor_reset [OF m(1) assms(2)] show ?thesis
      by (simp add: withPartition_def)
  next
    case (Some p)
    with m show ?thesis by (auto simp: withPartition_def)
  qed
  then obtain m1 where m1: "peerMonitor (calls (withPartition st)) noSliceYet = Some m1"
    "peerAgrees (withPartition st) m1"
    by blast
  then have t1: "seeded (withPartition st)" by (simp add: seeded_def)
  show ?thesis
  proof (cases "numRows' st = 0 \<or> numRows' st - numProcessedRows' st = 0")
    case True
    with assms(3) have "st' = st" by (simp add: getOutput_cases)
    with assms(1) show ?thesis by simp
  next
    case False
    show ?thesis
    proof (cases "currentPartition' (withPartition st) = None")
      case True
      with False assms(3) have "st' = withPartition st" by (simp add: getOutput_cases)
      with t1 show ?thesis by simp
    next
      case c: False
      with False assms(3) have l: "callApplyLoop (withPartition st)
          (min (numRowsPerOutput' st) (numRows' st - numProcessedRows' st)) 0 = Inr st'"
        by (simp add: getOutput_cases split: sum.splits)
      have ne: "windowFunctions' (withPartition st) \<noteq> []"
        using assms(2) by (simp add: withPartition_simps)
      from callApplyLoop_seeded [OF l ne m1] show ?thesis
        by (auto simp: seeded_def)
    qed
  qed
qed

lemma getOutputs_seeded:
  assumes "seeded st" and "windowFunctions' st \<noteq> []"
    and "getOutputs k st = Inr (st', outs)"
  shows "seeded st'"
  using assms
proof (induction k arbitrary: st outs)
  case 0
  then show ?case by simp
next
  case (Suc k)
  from Suc.prems(3) obtain st1 out outs1 where
    g: "getOutput st = Inr (st1, out)" and
    r: "getOutputs k st1 = Inr (st', outs1)"
    by (auto split: sum.splits prod.splits)
  note t = getOutput_seeded [OF Suc.prems(1,2) g]
  from getOutput_static [OF g] Suc.prems(2) have "windowFunctions' st1 \<noteq> []" by simp
  from Suc.IH [OF t this r] show ?case .
qed

lemma seeded_newWindow: "seeded (newWindow functions frames partitions numRowsPerOutput)"
  by (simp add: seeded_def newWindow_def noSliceYet_def peerAgrees_def)

text \<open>
  Two \<open>getOutput\<close> calls on one partition of three rows with a budget of two rows and a
  column-derived offset: the slices \<open>[0, 2)\<close> and \<open>[2, 3)\<close>, each with the offset column
  extracted after the peer buffers are computed.
\<close>

lemma getOutputs_partitionWithOffsets:
  "\<exists>st'. getOutputs 2 (newWindow [''sum''] [rowsColumnPrecedingCurrentRow]
              [partitionWithOffsets] 2) = Inr (st', [Some 2, Some 1])
     \<and> calls st'
         = [ResetPartition 0 partitionWithOffsets,
            ExtractColumn 0 0 2 0, ComputePeerBuffers 0 2 0 0, ExtractColumn 0 0 2 0,
            Apply 0 [0, 1] [0, 1] [0, 1] [0, 1] [True, True] 0,
            ExtractColumn 0 2 1 0, ComputePeerBuffers 2 3 1 1, ExtractColumn 0 2 1 0,
            Apply 0 [2] [2] [0] [2] [True] 0]"
proof -
  have c: "(0::nat) \<noteq> kConstantChannel"
    by (simp add: kConstantChannel_def)
  have r: "replicate 2 (0::int) = [0, 0]" "replicate 2 True = [True, True]"
    by (simp_all add: numeral_eq_Suc)
  show ?thesis
    unfolding numeral_2_eq_2
    by (simp add: getOutput_def newWindow_def callResetPartition_def callApplyLoop.simps
        rowsColumnPrecedingCurrentRow_def partitionWithOffsets_def
        distinctKeysPartition_def callApplyForPartitionRows_def getInputColumns_def
        computePeerAndFrameBuffers_def computeFrameBuffers_def updateFrameBounds_def
        updateKRowsFrameBounds_def updateKRowsOffsetsColumn_def extractColumn_def
        computeValidFrames_def validFrameStep_def applyCalls_def rawValue_def
        copy_n_def iota_def upt_rec int32_t_def int64_t_def Let_def c r)
qed

text \<open>
  C8. Let the operator have at least one window function and let the second monitor
  agree with it (as it does for the operator whose input has just been finalized). After
  any number of \<open>getOutput\<close> calls that return, the monitor has accepted every call
  made so far: within one partition, every \<open>computePeerBuffers\<close> call started at the
  end row of the slice before (row 0 for the first slice of the partition) and was
  seeded with the pair returned by the call for the slice before (\<open>(0, 0)\<close> for the
  first slice of the partition); and the continuation pair and the cursor of the
  operator are the pair returned by the latest call and the end row of the latest slice.
  In one slice \<open>[startRow, endRow)\<close> the calls are, in this order: the \<open>extractColumn\<close>
  calls for the input columns, one \<open>computePeerBuffers\<close> call, seeded with the
  continuation pair of the operator, the \<open>extractColumn\<close> calls for the offset columns
  of the frames, and one \<open>apply\<close> call per function; afterwards the continuation pair is
  the pair that the \<open>computePeerBuffers\<close> call returned, and the cursor has advanced by
  exactly \<open>endRow - startRow\<close>, the partition staying current. \<open>callResetPartition\<close>
  sets the pair to \<open>(0, 0)\<close> and the cursor to 0.
\<close>

theorem peer_continuation:
  assumes "seeded st" and "windowFunctions' st \<noteq> []"
  shows "(\<forall>k st' outs. getOutputs k st = Inr (st', outs) \<longrightarrow>
            (\<exists>m. peerMonitor (calls st') noSliceYet = Some m \<and> peerAgrees st' m))
       \<and> (\<forall>s startRow endRow resultOffset s' p.
            callApplyForPartitionRows s startRow endRow resultOffset = Inr s'
            \<and> currentPartition' s = Some p \<longrightarrow>
            calls s' = calls s @ extractCalls s (endRow - startRow) resultOffset
              @ [ComputePeerBuffers startRow endRow (peerStartRow' s) (peerEndRow' s)]
              @ frameCalls s (endRow - startRow)
              @ applyCalls s' (endRow - startRow) resultOffset
            \<and> (peerStartRow' s', peerEndRow' s')
                = fst (computePeerBuffers p startRow endRow (peerStartRow' s) (peerEndRow' s))
            \<and> partitionOffset' s' = partitionOffset' s + (endRow - startRow)
            \<and> currentPartition' s' = Some p)
       \<and> (\<forall>s. peerStartRow' (callResetPartition s) = 0
              \<and> peerEndRow' (callResetPartition s) = 0
              \<and> partitionOffset' (callResetPartition s) = 0)"
proof (intro conjI allI impI)
  fix k st' outs
  assume "getOutputs k st = Inr (st', outs)"
  from getOutputs_seeded [OF assms this]
  show "\<exists>m. peerMonitor (calls st') noSliceYet = Some m \<and> peerAgrees st' m"
    by (auto simp: seeded_def split: option.splits)
next
  fix s startRow endRow resultOffset s' p
  assume h: "callApplyForPartitionRows s startRow endRow resultOffset = Inr s'
            \<and> currentPartition' s = Some p"
  then have r: "callApplyForPartitionRows s startRow endRow resultOffset = Inr s'"
    and p: "currentPartition' s = Some p" by simp_all
  note f = callApplyForPartitionRows_Inr [OF r]
  from f(11) show "calls s' = calls s @ extractCalls s (endRow - startRow) resultOffset
              @ [ComputePeerBuffers startRow endRow (peerStartRow' s) (peerEndRow' s)]
              @ frameCalls s (endRow - startRow)
              @ applyCalls s' (endRow - startRow) resultOffset" .
  from f(1) p show "(peerStartRow' s', peerEndRow' s')
                = fst (computePeerBuffers p startRow endRow (peerStartRow' s) (peerEndRow' s))"
    by simp
  from f(10) show "partitionOffset' s' = partitionOffset' s + (endRow - startRow)" .
  from f(4) p show "currentPartition' s' = Some p" by simp
next
  fix s :: Window
  show "peerStartRow' (callResetPartition s) = 0"
    and "peerEndRow' (callResetPartition s) = 0"
    and "partitionOffset' (callResetPartition s) = 0"
    by (simp_all add: callResetPartition_simps)
qed

text \<open>
  The operator with the column-derived offset above: the two calls return and the
  monitor accepts all calls made, the offset \<open>extractColumn\<close> calls among them; the
  second slice is seeded with the pair \<open>(1, 1)\<close> returned for the first. And the spec's
  example, a 10-row partition and a budget of 4 rows: in the slices \<open>[0, 4)\<close> and
  \<open>[4, 8)\<close>, the first is seeded with \<open>(0, 0)\<close> and the second with the pair \<open>(3, 3)\<close>
  returned for the first.
\<close>

theorem peer_continuation_witness:
  "(\<exists>st' m.
      getOutputs 2 (newWindow [''sum''] [rowsColumnPrecedingCurrentRow]
          [partitionWithOffsets] 2) = Inr (st', [Some 2, Some 1])
      \<and> calls st'
          = [ResetPartition 0 partitionWithOffsets,
             ExtractColumn 0 0 2 0, ComputePeerBuffers 0 2 0 0, ExtractColumn 0 0 2 0,
             Apply 0 [0, 1] [0, 1] [0, 1] [0, 1] [True, True] 0,
             ExtractColumn 0 2 1 0, ComputePeerBuffers 2 3 1 1, ExtractColumn 0 2 1 0,
             Apply 0 [2] [2] [0] [2] [True] 0]
      \<and> peerMonitor (calls st') noSliceYet = Some m \<and> peerAgrees st' m)
   \<and> (\<exists>st1 st2.
      callApplyForPartitionRows
        (callResetPartition (newWindow [''sum''] [rowsUnboundedPrecedingCurrentRow]
           [distinctKeysPartition 10 (\<lambda>c. [])] 4)) 0 4 0 = Inr st1
      \<and> callApplyForPartitionRows st1 4 8 0 = Inr st2
      \<and> (peerStartRow' st1, peerEndRow' st1) = (3, 3)
      \<and> partitionOffset' st1 = 4
      \<and> partitionOffset' st2 = 8
      \<and> calls st2 = calls st1 @ extractCalls st1 (8 - 4) 0
           @ [ComputePeerBuffers 4 8 3 3] @ frameCalls st1 (8 - 4)
           @ applyCalls st2 (8 - 4) 0)"
proof -
  let ?k = "newWindow [''sum''] [rowsColumnPrecedingCurrentRow] [partitionWithOffsets] 2"
  let ?p = "distinctKeysPartition 10 (\<lambda>c. [])"
  let ?new = "newWindow [''sum''] [rowsUnboundedPrecedingCurrentRow] [?p] 4"
  let ?st = "callResetPartition ?new"
  have sk: "seeded ?k" by (rule seeded_newWindow)
  have nk: "windowFunctions' ?k \<noteq> []" by (simp add: newWindow_def)
  from getOutputs_partitionWithOffsets obtain st' where
    g: "getOutputs 2 ?k = Inr (st', [Some 2, Some 1])" and
    cs: "calls st'
          = [ResetPartition 0 partitionWithOffsets,
             ExtractColumn 0 0 2 0, ComputePeerBuffers 0 2 0 0, ExtractColumn 0 0 2 0,
             Apply 0 [0, 1] [0, 1] [0, 1] [0, 1] [True, True] 0,
             ExtractColumn 0 2 1 0, ComputePeerBuffers 2 3 1 1, ExtractColumn 0 2 1 0,
             Apply 0 [2] [2] [0] [2] [True] 0]"
    by blast
  from peer_continuation [OF sk nk] g
  obtain m where m: "peerMonitor (calls st') noSliceYet = Some m \<and> peerAgrees st' m"
    by blast
  have sd: "seeded ?new" by (rule seeded_newWindow)
  have ne: "windowFunctions' ?new \<noteq> []" by (simp add: newWindow_def)
  note t = peer_continuation [OF sd ne]
  have cp: "currentPartition' ?st = Some ?p"
    by (simp add: callResetPartition_simps newWindow_def)
  have k0: "windowFunctions' ?st = [''sum'']"
    "windowFrames' ?st = [rowsUnboundedPrecedingCurrentRow]"
    by (simp_all add: callResetPartition_simps newWindow_def)
  have nk0: "\<forall>i<length (windowFunctions' ?st). noKBounds (windowFrames' ?st ! i)"
    unfolding k0
    by (simp add: noKBounds_def isKBound_def rowsUnboundedPrecedingCurrentRow_def)
  from callApplyForPartitionRows_noK [OF cp nk0, of 0 4 0] obtain st1 where
    r1: "callApplyForPartitionRows ?st 0 4 0 = Inr st1" by blast
  have ret: "fst (computePeerBuffers ?p 0 4 0 0) = (3, 3)"
    by (simp add: distinctKeysPartition_def)
  from t r1 cp have c1: "currentPartition' st1 = Some ?p"
    and o1: "partitionOffset' st1 = partitionOffset' ?st + (4 - 0)"
    and s1: "(peerStartRow' st1, peerEndRow' st1)
      = fst (computePeerBuffers ?p 0 4 (peerStartRow' ?st) (peerEndRow' ?st))"
    by blast+
  from o1 have o1': "partitionOffset' st1 = 4" by (simp add: callResetPartition_simps)
  from s1 ret have s1': "(peerStartRow' st1, peerEndRow' st1) = (3, 3)"
    by (simp add: callResetPartition_simps)
  from callApplyForPartitionRows_Inr [OF r1] k0
  have k1: "windowFunctions' st1 = [''sum'']"
    "windowFrames' st1 = [rowsUnboundedPrecedingCurrentRow]"
    by simp_all
  have nk1: "\<forall>i<length (windowFunctions' st1). noKBounds (windowFrames' st1 ! i)"
    unfolding k1
    by (simp add: noKBounds_def isKBound_def rowsUnboundedPrecedingCurrentRow_def)
  from callApplyForPartitionRows_noK [OF c1 nk1, of 4 8 0] obtain st2 where
    r2: "callApplyForPartitionRows st1 4 8 0 = Inr st2" by blast
  from t r2 c1 have c2: "calls st2 = calls st1 @ extractCalls st1 (8 - 4) 0
          @ [ComputePeerBuffers 4 8 (peerStartRow' st1) (peerEndRow' st1)]
          @ frameCalls st1 (8 - 4)
          @ applyCalls st2 (8 - 4) 0"
    and o2: "partitionOffset' st2 = partitionOffset' st1 + (8 - 4)"
    by blast+
  from s1' c2 have c2': "calls st2 = calls st1 @ extractCalls st1 (8 - 4) 0
          @ [ComputePeerBuffers 4 8 3 3] @ frameCalls st1 (8 - 4)
          @ applyCalls st2 (8 - 4) 0"
    by simp
  from o2 o1' have o2': "partitionOffset' st2 = 8" by simp
  from g cs m r1 r2 s1' o1' o2' c2' show ?thesis by blast
qed

end
